theory Spec2Isabelle
  imports Complex_Main "HOL-Library.Code_Target_Nat"
begin

section \<open>Data model (types.ts)\<close>

text \<open>
  The game state of the rhythm game and the objects it holds. Two conventions:

  \<^item> JavaScript numbers are IEEE doubles. Those that the state logic only ever adds
    small integers to (\<open>yPos\<close>, \<open>score\<close>, \<open>time\<close>, \<open>pitch\<close>, \<open>velocity\<close>) are
    \<open>int\<close>, which is exact for doubles below \<open>2 ^ 53\<close>; the note times are \<open>rat\<close>.
    The random number generator multiplies beyond \<open>2 ^ 53\<close>; its rounding is written
    out where it happens.
  \<^item> JavaScript compares objects with \<open>!==\<close> by reference. Every object that the code
    compares in this way carries the address it was allocated at (\<open>note_ref\<close>,
    \<open>elem_ref\<close>, \<open>obj_ref\<close>), and the code that creates objects takes the next free
    address as an argument.
\<close>

type_synonym ref = nat

datatype Key = KeyH | KeyJ | KeyK | KeyL

record NoteObject =
  note_ref :: ref
  user_played :: bool
  instrument_name :: string
  velocity :: int
  pitch :: int
  start :: rat
  end' :: rat

text \<open>
  An SVG circle element. Of its attributes only \<open>cx\<close> is ever read back
  (\<open>getAttribute("cx")\<close>, which is \<open>null\<close> when the attribute is absent).
\<close>

record SVGElement =
  elem_ref :: ref
  cx :: "string option"

record CircleObj =
  obj_ref :: ref
  note' :: NoteObject
  circle :: SVGElement
  yPos :: int

record State =
  gameEnd :: bool
  notes' :: "NoteObject list"
  score :: int
  time :: int
  circles :: "CircleObj list"
  exits :: "CircleObj list"

section \<open>State updates (state.ts)\<close>

definition initialState :: State where
  "initialState =
     \<lparr>gameEnd = False, notes' = [], score = 0, time = 0, circles = [], exits = []\<rparr>"

text \<open>
  \<open>Tick.apply\<close>. The \<open>map\<close> builds one new object per circle (the spread copies the
  note and the SVG element and replaces \<open>yPos\<close>); the new objects get the addresses
  \<open>h\<close>, \<open>h + 1\<close>, ... . \<open>newExits\<close> is filtered from \<open>s.circles\<close>, the circles
  before the move.
\<close>

definition Tick_apply :: "ref \<Rightarrow> State \<Rightarrow> State" where
  "Tick_apply h s =
     (let updatedCircles =
            filter (\<lambda>circle. yPos circle \<le> 350)
              (map (\<lambda>(r, circle). circle\<lparr>obj_ref := r, yPos := yPos circle + 5\<rparr>)
                 (enumerate h (circles s)));
          newExits = filter (\<lambda>circle. yPos circle > 350) (circles s)
      in s\<lparr>circles := updatedCircles, exits := exits s @ newExits, time := time s + 1\<rparr>)"

definition RemoveCircle_apply :: "NoteObject \<Rightarrow> State \<Rightarrow> State" where
  "RemoveCircle_apply this_note s =
     s\<lparr>circles := filter (\<lambda>circle. note_ref (note' circle) \<noteq> note_ref this_note) (circles s)\<rparr>"

definition UpdateCircleState_apply :: "CircleObj \<Rightarrow> State \<Rightarrow> State" where
  "UpdateCircleState_apply this_circle state = state\<lparr>circles := circles state @ [this_circle]\<rparr>"

definition GameEnd_apply :: "State \<Rightarrow> State" where
  "GameEnd_apply s = s\<lparr>gameEnd := True\<rparr>"

datatype Action = Tick | RemoveCircle NoteObject | UpdateCircleState CircleObj | GameEnd

text \<open>\<open>reduceState\<close> dispatches on the class of the action; \<open>h\<close> is the next free address.\<close>

fun reduceState :: "ref \<Rightarrow> State \<Rightarrow> Action \<Rightarrow> State" where
  "reduceState h s Tick = Tick_apply h s"
| "reduceState h s (RemoveCircle n) = RemoveCircle_apply n s"
| "reduceState h s (UpdateCircleState c) = UpdateCircleState_apply c s"
| "reduceState h s GameEnd = GameEnd_apply s"

section \<open>Random numbers (util.ts)\<close>

text \<open>
  The linear congruential generator of class \<open>RNG\<close>. A seed, and every value of the
  sequence made from it, is a double that is an integer, or \<open>NaN\<close>, which is \<open>None\<close>
  here.

  The product \<open>RNG.a * seed\<close> exceeds \<open>2 ^ 53\<close> for seeds from 8162279 on, and a
  double keeps 53 significant bits: the product, and then the sum, is rounded to the
  nearest such integer, a tie going to the even one. \<open>ulp x\<close> is the distance between
  neighbouring doubles at the size of \<open>x\<close> (1 below \<open>2 ^ 53 = 9007199254740992\<close>,
  doubling with every further bit), and \<open>round53\<close> is that rounding of a magnitude;
  the rounding of a negative number is the mirror image. A result whose rounding
  reaches \<open>2 ^ 1024\<close> is \<open>Infinity\<close> or \<open>-Infinity\<close> (\<open>to_double\<close> gives \<open>None\<close>):
  adding \<open>RNG.c\<close> leaves it as it is and its remainder is \<open>NaN\<close>, as is
  every operation on \<open>NaN\<close>. The remainder \<open>%\<close> of a finite number is exact and takes
  the sign of the dividend.
\<close>

fun ulp :: "nat \<Rightarrow> nat" where
  "ulp x = (if x < 9007199254740992 then 1 else 2 * ulp (x div 2))"

definition round53 :: "nat \<Rightarrow> nat" where
  "round53 x =
     (let u = ulp x; q = x div u; r = x mod u
      in if 2 * r < u \<or> (2 * r = u \<and> even q) then q * u else (q + 1) * u)"

definition overflow :: nat where
  "overflow = 2 ^ 1024"

definition to_double :: "int \<Rightarrow> int option" where
  "to_double x =
     (if round53 (nat \<bar>x\<bar>) < overflow then Some (sgn x * int (round53 (nat \<bar>x\<bar>))) else None)"

definition js_rem :: "int \<Rightarrow> int \<Rightarrow> int" where
  "js_rem a b = sgn a * (\<bar>a\<bar> mod \<bar>b\<bar>)"

definition RNG_m :: int where "RNG_m = 2147483648"
definition RNG_a :: int where "RNG_a = 1103515245"
definition RNG_c :: int where "RNG_c = 12345"

definition hash :: "int option \<Rightarrow> int option" where
  "hash seed =
     (case seed of
        None \<Rightarrow> None
      | Some seed \<Rightarrow>
          (case to_double (RNG_a * seed) of
             None \<Rightarrow> None
           | Some p \<Rightarrow>
               (case to_double (p + RNG_c) of
                  None \<Rightarrow> None
                | Some q \<Rightarrow> Some (js_rem q RNG_m))))"

text \<open>
  \<open>scale\<close> divides; its value, and the index that a missed key press computes from
  it, are exact rationals here, where the browser has the nearest doubles. The scaled
  \<open>NaN\<close> is \<open>NaN\<close>.
\<close>

definition scale :: "int option \<Rightarrow> rat option" where
  "scale h =
     (case h of None \<Rightarrow> None | Some h \<Rightarrow> Some ((2 * of_int h) / (of_int RNG_m - 1) - 1))"

text \<open>
  A \<open>LazySequence\<close> made by \<open>lazyRNG\<close> is its current value together with the
  closure \<open>next\<close>, which captures nothing but that value; the object is represented by
  the value, and \<open>seq_next\<close> is what calling \<open>next()\<close> returns.
\<close>

datatype LazySequence = LazySequence (seq_value: "int option")

definition lazyRNG :: "int option \<Rightarrow> LazySequence" where
  "lazyRNG seed = LazySequence seed"

definition seq_next :: "LazySequence \<Rightarrow> LazySequence" where
  "seq_next s = lazyRNG (hash (seq_value s))"

text \<open>
  \<open>createTriggeredRngStream\<close> returns the closure \<open>getRandomValue\<close> over the mutable
  variable \<open>currentSequence\<close>. The variable is passed in and handed back.
\<close>

definition createTriggeredRngStream :: "int \<Rightarrow> LazySequence" where
  "createTriggeredRngStream seed = lazyRNG (Some seed)"

definition getRandomValue :: "LazySequence \<Rightarrow> rat option \<times> LazySequence" where
  "getRandomValue currentSequence =
     (let currentSequence = seq_next currentSequence
      in (scale (seq_value currentSequence), currentSequence))"

text \<open>
  The value returned by call number \<open>n\<close> of a stream, counting from 0: the calls
  before it have each advanced \<open>currentSequence\<close>.
\<close>

fun nth_call :: "nat \<Rightarrow> LazySequence \<Rightarrow> rat option" where
  "nth_call 0 currentSequence = fst (getRandomValue currentSequence)"
| "nth_call (Suc n) currentSequence = nth_call n (snd (getRandomValue currentSequence))"

section \<open>Circles, sound and key presses (util.ts)\<close>

text \<open>Reading an array at an index: \<open>undefined\<close> (here \<open>None\<close>) outside the array.\<close>

definition js_index :: "'a list \<Rightarrow> int \<Rightarrow> 'a option" where
  "js_index xs i = (if 0 \<le> i \<and> i < int (length xs) then Some (xs ! nat i) else None)"

definition determineCxPosition :: "NoteObject \<Rightarrow> string option" where
  "determineCxPosition n =
     (let colour = js_rem (pitch n) 4;
          position = [''20%'', ''40%'', ''60%'', ''80%'']
      in js_index position colour)"

text \<open>\<open>setAttribute\<close> stores the string form of its argument.\<close>

definition attribute_string :: "string option \<Rightarrow> string" where
  "attribute_string v = (case v of None \<Rightarrow> ''undefined'' | Some s \<Rightarrow> s)"

text \<open>
  \<open>createCircleObj\<close> allocates the SVG element at \<open>h\<close> and the circle object at
  \<open>h + 1\<close>.
\<close>

definition createCircleObj :: "ref \<Rightarrow> NoteObject \<Rightarrow> CircleObj" where
  "createCircleObj h n =
     (let circle = \<lparr>elem_ref = h, cx = Some (attribute_string (determineCxPosition n))\<rparr>
      in \<lparr>obj_ref = h + 1, note' = n, circle = circle, yPos = 0\<rparr>)"

datatype error = TypeError | NotFoundError

text \<open>
  \<open>samples\<close> is a plain object that has the names of the loaded instruments as its own
  properties (here the list of these names). Reading \<open>samples[name]\<close> gives the sampler
  for such a name, a member inherited from \<open>Object.prototype\<close> for the names below,
  and \<open>undefined\<close> for every other name.
\<close>

definition object_prototype :: "string list" where
  "object_prototype =
     [''constructor'', ''hasOwnProperty'', ''isPrototypeOf'', ''propertyIsEnumerable'',
      ''toLocaleString'', ''toString'', ''valueOf'', ''__defineGetter__'', ''__defineSetter__'',
      ''__lookupGetter__'', ''__lookupSetter__'', ''__proto__'']"

datatype property = Sampler | Inherited | Undefined

definition samples_get :: "string list \<Rightarrow> string \<Rightarrow> property" where
  "samples_get samples name =
     (if name \<in> set samples then Sampler
      else if name \<in> set object_prototype then Inherited
      else Undefined)"

text \<open>
  \<open>playSound\<close>. Reading \<open>note.instrument_name\<close> of \<open>undefined\<close> throws a
  \<open>TypeError\<close>. An inherited member is truthy and has no \<open>triggerAttackRelease\<close>:
  calling it throws a \<open>TypeError\<close> too. \<open>audio\<close> is the list of the notes sounded so
  far.
\<close>

definition playSound ::
  "NoteObject option \<Rightarrow> string list \<Rightarrow> NoteObject list \<Rightarrow> error + NoteObject list" where
  "playSound n samples audio =
     (case n of
        None \<Rightarrow> Inl TypeError
      | Some n \<Rightarrow>
          (case samples_get samples (instrument_name n) of
             Sampler \<Rightarrow> Inr (audio @ [n])
           | Inherited \<Rightarrow> Inl TypeError
           | Undefined \<Rightarrow> Inr audio))"

definition keyToPositionMapping :: "Key \<Rightarrow> string" where
  "keyToPositionMapping keyCode =
     (case keyCode of KeyH \<Rightarrow> ''20%'' | KeyJ \<Rightarrow> ''40%'' | KeyK \<Rightarrow> ''60%'' | KeyL \<Rightarrow> ''80%'')"

text \<open>
  The children of the SVG canvas, as element addresses. \<open>removeChild\<close> throws a
  \<open>NotFoundError\<close> when the node is not a child; \<open>appendChild\<close> moves a node that is
  already a child to the end.
\<close>

definition removeChild :: "ref \<Rightarrow> ref list \<Rightarrow> error + ref list" where
  "removeChild e children =
     (if e \<in> set children then Inr (filter (\<lambda>c. c \<noteq> e) children) else Inl NotFoundError)"

definition appendChild :: "ref \<Rightarrow> ref list \<Rightarrow> ref list" where
  "appendChild e children = filter (\<lambda>c. c \<noteq> e) children @ [e]"

text \<open>What the functions read and change outside the game state.\<close>

record Env =
  heap :: ref
  svg :: "ref list"
  currentSequence :: LazySequence
  audio :: "NoteObject list"

definition inHitRange :: "string \<Rightarrow> CircleObj \<Rightarrow> bool" where
  "inHitRange targetCx c \<longleftrightarrow>
     cx (circle c) = Some targetCx \<and> yPos c \<ge> 320 \<and> yPos c \<le> 350"

text \<open>
  The index of the random note of a miss. When the random value is \<open>NaN\<close> the index is
  \<open>NaN\<close> and the array read gives \<open>undefined\<close>.
\<close>

definition randomIndex :: "rat \<Rightarrow> nat \<Rightarrow> int" where
  "randomIndex v n = \<lfloor>(v + 1) / 2 * of_nat n\<rfloor>"

definition handleKeyPress ::
  "Key \<Rightarrow> State \<Rightarrow> string list \<Rightarrow> Env \<Rightarrow> error + State \<times> Env" where
  "handleKeyPress keyCode state samples env =
     (let targetCx = keyToPositionMapping keyCode in
      case find (inHitRange targetCx) (circles state) of
        Some hitCircle \<Rightarrow>
          (case playSound (Some (note' hitCircle)) samples (audio env) of
             Inl e \<Rightarrow> Inl e
           | Inr sounded \<Rightarrow>
               (case removeChild (elem_ref (circle hitCircle)) (svg env) of
                  Inl e \<Rightarrow> Inl e
                | Inr children \<Rightarrow>
                    (let updatedCircles =
                           filter (\<lambda>c. obj_ref c \<noteq> obj_ref hitCircle) (circles state);
                         newScore = score state + 10
                     in Inr (state\<lparr>circles := updatedCircles, score := newScore\<rparr>,
                             env\<lparr>svg := children, audio := sounded\<rparr>))))
      | None \<Rightarrow>
          (let (v, sequence) = getRandomValue (currentSequence env);
               randomNote =
                 (case v of
                    None \<Rightarrow> None
                  | Some v \<Rightarrow> js_index (notes' state) (randomIndex v (length (notes' state))))
           in case playSound randomNote samples (audio env) of
                Inl e \<Rightarrow> Inl e
              | Inr sounded \<Rightarrow>
                  (let newScore = max 0 (score state - 1)
                   in Inr (state\<lparr>score := newScore\<rparr>,
                           env\<lparr>currentSequence := sequence, audio := sounded\<rparr>))))"

section \<open>The main loop (main.ts)\<close>

text \<open>
  \<open>render\<close> appends the element of every circle of the state to the canvas.
\<close>

definition render :: "State \<Rightarrow> ref list \<Rightarrow> ref list" where
  "render state children =
     foldl (\<lambda>children c. appendChild (elem_ref (circle c)) children) children (circles state)"

text \<open>
  The events merged into \<open>source$\<close>: a clock tick, a user-played note whose start
  time has come, a background note whose start time has come, and a key press.
  \<open>Remove\<close> and \<open>End\<close> stand for the two action classes of state.ts that no stream
  of main.ts emits. The streams of main.ts emit \<open>UserPlayNote\<close> for the notes with
  \<open>user_played\<close> and \<open>BackGroundNote\<close> for the others; here either event may carry
  any note.
\<close>

datatype Event =
  Clock | UserPlayNote NoteObject | BackGroundNote NoteObject | KeyPress Key
  | Remove NoteObject | End

text \<open>The accumulator of \<open>scan\<close>: the state update of one event.\<close>

fun update :: "string list \<Rightarrow> Event \<Rightarrow> State \<times> Env \<Rightarrow> error + State \<times> Env" where
  "update samples Clock (s, env) =
     Inr (Tick_apply (heap env) s, env\<lparr>heap := heap env + length (circles s)\<rparr>)"
| "update samples (UserPlayNote n) (s, env) =
     (let circleObj = createCircleObj (heap env) n
      in Inr (UpdateCircleState_apply circleObj s, env\<lparr>heap := heap env + 2\<rparr>))"
| "update samples (BackGroundNote n) (s, env) =
     (case playSound (Some n) samples (audio env) of
        Inl e \<Rightarrow> Inl e
      | Inr sounded \<Rightarrow> Inr (s, env\<lparr>audio := sounded\<rparr>))"
| "update samples (KeyPress k) (s, env) = handleKeyPress k s samples env"
| "update samples (Remove n) (s, env) = Inr (RemoveCircle_apply n s, env)"
| "update samples End (s, env) = Inr (GameEnd_apply s, env)"

text \<open>One event: the update, then the subscriber renders the new state.\<close>

definition step :: "string list \<Rightarrow> Event \<Rightarrow> State \<times> Env \<Rightarrow> error + State \<times> Env" where
  "step samples ev w =
     (case update samples ev w of
        Inl e \<Rightarrow> Inl e
      | Inr (s, env) \<Rightarrow> Inr (s, env\<lparr>svg := render s (svg env)\<rparr>))"

text \<open>
  A run of the loop over a sequence of events. An exception ends the run: the stream
  errors and no further state is produced. main.ts unsubscribes once it sees
  \<open>gameEnd\<close>; a run goes on, as \<open>reduceState\<close> does not reject actions after the end,
  so the runs here include those of main.ts.
\<close>

fun run :: "string list \<Rightarrow> Event list \<Rightarrow> State \<times> Env \<Rightarrow> error + State \<times> Env" where
  "run samples [] w = Inr w"
| "run samples (ev # evs) w =
     (case step samples ev w of Inl e \<Rightarrow> Inl e | Inr w' \<Rightarrow> run samples evs w')"

text \<open>
  The state and environment \<open>main\<close> starts from: the initial state with the chart
  loaded, a stream seeded with \<open>seed\<close> (42 in main.ts), and the canvas as found.
  New objects are allocated above the elements already on the canvas.
\<close>

definition start_of :: "NoteObject list \<Rightarrow> int \<Rightarrow> ref list \<Rightarrow> State \<times> Env" where
  "start_of chart seed canvas =
     (initialState\<lparr>notes' := chart\<rparr>,
      \<lparr>heap = Suc (foldr max canvas 0), svg = canvas,
       currentSequence = createTriggeredRngStream seed, audio = []\<rparr>)"

text \<open>The instruments that main.ts loads samplers for.\<close>

definition instruments :: "string list" where
  "instruments =
     [''bass-electric'', ''violin'', ''piano'', ''trumpet'', ''saxophone'', ''trombone'',
      ''flute'']"

section \<open>A one-note session\<close>

text \<open>
  A chart with the single note (user-played, piano, velocity 80, pitch 60, from 0 to 1),
  started with seed 42 on an empty canvas. \<open>scenario_circle r y\<close> is the circle of
  that note as the object at address \<open>r\<close> with \<open>yPos = y\<close>.
\<close>

definition scenario_note :: NoteObject where
  "scenario_note =
     \<lparr>note_ref = 0, user_played = True, instrument_name = ''piano'', velocity = 80,
      pitch = 60, start = 0, end' = 1\<rparr>"

definition scenario_start :: "State \<times> Env" where
  "scenario_start = start_of [scenario_note] 42 []"

definition scenario_circle :: "ref \<Rightarrow> int \<Rightarrow> CircleObj" where
  "scenario_circle r y =
     \<lparr>obj_ref = r, note' = scenario_note, circle = \<lparr>elem_ref = 1, cx = Some ''20%''\<rparr>,
      yPos = y\<rparr>"

text \<open>
  The session when the circle has reached the hit line: the note became due, then 64
  clock ticks passed.
\<close>

definition scenario_at_hit_line :: "State \<times> Env" where
  "scenario_at_hit_line =
     (initialState\<lparr>notes' := [scenario_note], time := 64,
                   circles := [scenario_circle 66 320]\<rparr>,
      \<lparr>heap = 67, svg = [1], currentSequence = LazySequence (Some 42), audio = []\<rparr>)"

text \<open>
  The same note in a chart that names \<open>constructor\<close> as its instrument: no sampler
  of that name is loaded, and every object inherits a member of that name.
\<close>

definition inherited_note :: NoteObject where
  "inherited_note = scenario_note\<lparr>instrument_name := ''constructor''\<rparr>"

text \<open>The same events followed by three presses: a hit and two misses.\<close>

definition scenario_events :: "Event list" where
  "scenario_events =
     UserPlayNote scenario_note # replicate 64 Clock @ [KeyPress KeyH, KeyPress KeyH, KeyPress KeyJ]"

section \<open>Invariants of a run\<close>

text \<open>No circle is below the exit line and nothing has been recorded as exited.\<close>

definition on_lane :: "State \<Rightarrow> bool" where
  "on_lane s \<longleftrightarrow> exits s = [] \<and> list_all (\<lambda>c. yPos c \<le> 350) (circles s)"

text \<open>The element of every circle is a child of the canvas.\<close>

definition on_canvas :: "State \<times> Env \<Rightarrow> bool" where
  "on_canvas w \<longleftrightarrow>
     list_all (\<lambda>c. elem_ref (circle c) \<in> set (svg (snd w))) (circles (fst w))"

text \<open>The circles are pairwise different objects, allocated below the next free address.\<close>

definition fresh_refs :: "State \<times> Env \<Rightarrow> bool" where
  "fresh_refs w \<longleftrightarrow>
     distinct (map obj_ref (circles (fst w)))
     \<and> list_all (\<lambda>c. obj_ref c < heap (snd w)) (circles (fst w))"

text \<open>
  What a state shows when the addresses of its objects are left out: the flag, the
  chart, score and time, and of every circle its note, its lane and its position.
\<close>

definition visible_circle :: "CircleObj \<Rightarrow> NoteObject \<times> string option \<times> int" where
  "visible_circle c = (note' c, cx (circle c), yPos c)"

definition visible ::
  "State \<Rightarrow> bool \<times> NoteObject list \<times> int \<times> int
     \<times> (NoteObject \<times> string option \<times> int) list \<times> (NoteObject \<times> string option \<times> int) list" where
  "visible s =
     (gameEnd s, notes' s, score s, time s, map visible_circle (circles s),
      map visible_circle (exits s))"

text \<open>
  Two situations that show the same and agree in the random stream and in the sounds
  played so far.
\<close>

definition shows_same :: "State \<times> Env \<Rightarrow> State \<times> Env \<Rightarrow> bool" where
  "shows_same w1 w2 \<longleftrightarrow>
     visible (fst w1) = visible (fst w2)
     \<and> currentSequence (snd w1) = currentSequence (snd w2)
     \<and> audio (snd w1) = audio (snd w2)"

text \<open>
  Two situations of two executions of the program: they show the same, and in each the
  circles are different objects whose elements are on the canvas. Where the objects lie
  and what else is on the canvas may differ.
\<close>

definition alike :: "State \<times> Env \<Rightarrow> State \<times> Env \<Rightarrow> bool" where
  "alike w1 w2 \<longleftrightarrow>
     shows_same w1 w2 \<and> fresh_refs w1 \<and> fresh_refs w2 \<and> on_canvas w1 \<and> on_canvas w2"

section \<open>The tick\<close>

lemma Tick_exits: "exits (Tick_apply h s) = exits s @ filter (\<lambda>c. yPos c > 350) (circles s)"
  by (simp add: Tick_apply_def)

lemma Tick_circles_le: "c \<in> set (circles (Tick_apply h s)) \<Longrightarrow> yPos c \<le> 350"
  by (auto simp: Tick_apply_def)

text \<open>The circles that stay have moved down by 5, in their old order.\<close>

lemma Tick_yPos:
  "map yPos (circles (Tick_apply h s)) =
     filter (\<lambda>y. y \<le> 350) (map (\<lambda>c. yPos c + 5) (circles s))"
proof -
  have "map yPos (filter (\<lambda>c. yPos c \<le> 350)
          (map (\<lambda>(r, c). c\<lparr>obj_ref := r, yPos := yPos c + 5\<rparr>) (enumerate k xs)))
        = filter (\<lambda>y. y \<le> 350) (map (\<lambda>c. yPos c + 5) xs)" for k and xs :: "CircleObj list"
    by (induction xs arbitrary: k) simp_all
  then show ?thesis by (simp add: Tick_apply_def)
qed

lemma Tick_refs:
  "map obj_ref (circles (Tick_apply h s)) =
     map fst (filter (\<lambda>(r, c). yPos c + 5 \<le> 350) (enumerate h (circles s)))"
proof -
  have "map obj_ref (filter (\<lambda>c. yPos c \<le> 350)
          (map (\<lambda>(r, c). c\<lparr>obj_ref := r, yPos := yPos c + 5\<rparr>) ps))
        = map fst (filter (\<lambda>(r, c). yPos c + 5 \<le> 350) ps)" for ps :: "(ref \<times> CircleObj) list"
    by (induction ps) auto
  then show ?thesis by (simp add: Tick_apply_def)
qed

lemma Tick_other_fields:
  "time (Tick_apply h s) = time s + 1" "score (Tick_apply h s) = score s"
  "notes' (Tick_apply h s) = notes' s" "gameEnd (Tick_apply h s) = gameEnd s"
  by (simp_all add: Tick_apply_def)

section \<open>The two branches of a key press\<close>

lemma playSound_error: "playSound n samples a = Inl e \<Longrightarrow> e = TypeError"
  by (auto simp: playSound_def split: option.splits property.splits)

text \<open>
  A hit: the sound of the note is triggered (or the reading of the sampler throws),
  the element leaves the canvas (or \<open>removeChild\<close> throws), the slots holding the hit
  object are filtered out and the score grows by 10.
\<close>

lemma handleKeyPress_hit:
  assumes "find (inHitRange (keyToPositionMapping k)) (circles s) = Some h"
  shows "handleKeyPress k s samples env =
     (case playSound (Some (note' h)) samples (audio env) of
        Inl e \<Rightarrow> Inl e
      | Inr sounded \<Rightarrow>
          if elem_ref (circle h) \<in> set (svg env)
          then Inr (s\<lparr>circles := filter (\<lambda>c. obj_ref c \<noteq> obj_ref h) (circles s),
                      score := score s + 10\<rparr>,
                    env\<lparr>svg := filter (\<lambda>c. c \<noteq> elem_ref (circle h)) (svg env),
                        audio := sounded\<rparr>)
          else Inl NotFoundError)"
  using assms by (simp add: handleKeyPress_def removeChild_def split: sum.split)

text \<open>
  A miss: the stream advances, the note at the random index is looked up, and
  \<open>playSound\<close> throws when the lookup gave \<open>undefined\<close> or the sampler cannot be
  triggered; only otherwise is the score lowered.
\<close>

lemma handleKeyPress_miss:
  assumes "find (inHitRange (keyToPositionMapping k)) (circles s) = None"
  shows "handleKeyPress k s samples env =
     (let sequence = seq_next (currentSequence env);
          randomNote =
            (case scale (seq_value sequence) of
               None \<Rightarrow> None
             | Some v \<Rightarrow> js_index (notes' s) (randomIndex v (length (notes' s))))
      in case playSound randomNote samples (audio env) of
           Inl e \<Rightarrow> Inl e
         | Inr sounded \<Rightarrow>
             Inr (s\<lparr>score := max 0 (score s - 1)\<rparr>,
                  env\<lparr>currentSequence := sequence, audio := sounded\<rparr>))"
  using assms
  by (simp add: handleKeyPress_def getRandomValue_def Let_def split: sum.split)

lemma filter_ref_remove1:
  assumes "distinct (map f xs)" and "h \<in> set xs"
  shows "filter (\<lambda>c. f c \<noteq> f h) xs = remove1 h xs"
proof -
  from assms(1) have d: "distinct xs" and inj: "inj_on f (set xs)"
    by (simp_all add: distinct_map)
  have "filter (\<lambda>c. f c \<noteq> f h) xs = filter (\<lambda>c. c \<noteq> h) xs"
    using inj assms(2) by (intro filter_cong refl) (auto dest: inj_onD)
  also have "\<dots> = removeAll h xs" by (induction xs) auto
  also have "\<dots> = remove1 h xs" using d by (simp add: distinct_remove1_removeAll)
  finally show ?thesis .
qed

section \<open>The random stream\<close>

text \<open>
  Integers below \<open>2 ^ 53\<close> are doubles; above, only even ones are, and rounding stays
  above \<open>2 ^ 53\<close>.
\<close>

declare ulp.simps [simp del]

lemma ulp_pos: "0 < ulp x"
  by (induction x rule: ulp.induct) (subst ulp.simps, simp)

lemma ulp_small: "x < 9007199254740992 \<Longrightarrow> ulp x = 1"
  by (subst ulp.simps) simp

lemma ulp_large:
  assumes "9007199254740992 \<le> x"
  shows "even (ulp x)" and "4503599627370496 * ulp x \<le> x"
proof -
  from assms have u: "ulp x = 2 * ulp (x div 2)" by (subst ulp.simps) simp
  then show "even (ulp x)" by simp
  from assms show "4503599627370496 * ulp x \<le> x"
  proof (induction x rule: ulp.induct)
    case (1 x)
    from "1.prems" have u: "ulp x = 2 * ulp (x div 2)" by (subst ulp.simps) simp
    show ?case
    proof (cases "x div 2 < 9007199254740992")
      case True
      then have "ulp (x div 2) = 1" by (rule ulp_small)
      with "1.prems" u show ?thesis by simp
    next
      case False
      with "1.prems" "1.IH" have "4503599627370496 * ulp (x div 2) \<le> x div 2" by simp
      then have "2 * (4503599627370496 * ulp (x div 2)) \<le> 2 * (x div 2)" by simp
      also have "\<dots> \<le> x" by simp
      finally show ?thesis using u by simp
    qed
  qed
qed

lemma ulp_power: "\<exists>j. ulp x = 2 ^ j"
proof (induction x rule: ulp.induct)
  case (1 x)
  show ?case
  proof (cases "x < 9007199254740992")
    case True
    then have "ulp x = 2 ^ 0" by (simp add: ulp_small)
    then show ?thesis by blast
  next
    case False
    with "1.IH" obtain j where "ulp (x div 2) = 2 ^ j" by blast
    with False have "ulp x = 2 ^ Suc j" by (subst ulp.simps) simp
    then show ?thesis by blast
  qed
qed

lemma round53_exact: "x < 9007199254740992 \<Longrightarrow> round53 x = x"
  by (simp add: round53_def ulp_small)

lemma round53_floor: "(x div ulp x) * ulp x \<le> round53 x"
  by (simp add: round53_def Let_def)

lemma round53_large:
  assumes "9007199254740992 \<le> x"
  shows "even (round53 x)" and "9007199254740992 \<le> round53 x"
proof -
  let ?u = "ulp x"
  have ev: "even ?u" and le: "4503599627370496 * ?u \<le> x"
    using assms by (rule ulp_large)+
  have pos: "0 < ?u" by (rule ulp_pos)
  from ev show "even (round53 x)" by (simp add: round53_def Let_def)
  from ev pos have two: "2 \<le> ?u" by (cases "?u = 1") auto
  have "4503599627370496 \<le> x div ?u"
    using le pos by (simp add: less_eq_div_iff_mult_less_eq)
  then have "4503599627370496 * 2 \<le> (x div ?u) * ?u"
    using two by (rule mult_le_mono)
  then have "9007199254740992 \<le> (x div ?u) * ?u" by simp
  also have "\<dots> \<le> round53 x" by (rule round53_floor)
  finally show "9007199254740992 \<le> round53 x" .
qed

text \<open>Rounding does not fall below a power of two that the number has reached.\<close>

lemma round53_ge_power:
  assumes k: "53 \<le> k" and x: "2 ^ k \<le> x"
  shows "2 ^ k \<le> round53 x"
proof -
  let ?u = "ulp x"
  have "(2 :: nat) ^ 53 \<le> 2 ^ k" using k by (rule power_increasing) simp
  with x have big: "9007199254740992 \<le> x" by simp
  then have le: "4503599627370496 * ?u \<le> x" by (rule ulp_large)
  have pos: "0 < ?u" by (rule ulp_pos)
  obtain j where j: "?u = 2 ^ j" using ulp_power by blast
  have "2 ^ k \<le> (x div ?u) * ?u"
  proof (cases "j \<le> k")
    case True
    then have "(2 :: nat) ^ k = 2 ^ (k - j) * 2 ^ j" by (simp flip: power_add)
    then have split: "2 ^ k = 2 ^ (k - j) * ?u" by (simp add: j)
    with x have "2 ^ (k - j) * ?u \<le> x" by simp
    then have "2 ^ (k - j) \<le> x div ?u"
      using pos by (simp add: less_eq_div_iff_mult_less_eq)
    then have "2 ^ (k - j) * ?u \<le> (x div ?u) * ?u" by simp
    with split show ?thesis by simp
  next
    case False
    then have "(2 :: nat) ^ k \<le> 2 ^ j" by simp
    also have "\<dots> = 1 * ?u" by (simp add: j)
    also have "\<dots> \<le> 4503599627370496 * ?u" by (rule mult_le_mono1) simp
    also have "\<dots> \<le> (x div ?u) * ?u"
      using le pos by (simp add: less_eq_div_iff_mult_less_eq)
    finally show ?thesis .
  qed
  also have "\<dots> \<le> round53 x" by (rule round53_floor)
  finally show ?thesis .
qed

lemma round53_le_double: "round53 x \<le> 2 * x"
proof (cases "x < 9007199254740992")
  case True
  then show ?thesis by (simp add: round53_exact)
next
  case False
  let ?u = "ulp x"
  from False have "4503599627370496 * ?u \<le> x" by (simp add: ulp_large)
  moreover have "1 * ?u \<le> 4503599627370496 * ?u" by (rule mult_le_mono1) simp
  ultimately have u: "?u \<le> x" by simp
  have down: "(x div ?u) * ?u \<le> x" by simp
  have "(x div ?u + 1) * ?u = (x div ?u) * ?u + ?u" by simp
  with down u have up: "(x div ?u + 1) * ?u \<le> 2 * x" by linarith
  from down have "(x div ?u) * ?u \<le> 2 * x" by linarith
  with up show ?thesis by (simp add: round53_def Let_def)
qed

lemma round53_examples:
  "map round53 [9007199254740993, 9007199254740995, 18014398509481986, 18014398509481990,
                18014398509481991]
     = [9007199254740992, 9007199254740996, 18014398509481984, 18014398509481992,
        18014398509481992]"
  by code_simp

text \<open>The bound of the doubles, written out for evaluation.\<close>

lemma overflow_code [code]:
  "overflow = 179769313486231590772930519078902473361797697894230657273430081157732675805500963132708477322407536021120113879871393357658789768814416622492847430639474124377767893424865485276302219601246094119453082952085005768838150682342462881473913110540827237163350510684586298239947245938479716304835356329624224137216"
  by (simp add: overflow_def)

text \<open>The double of a non-negative integer, and of an integer below zero.\<close>

lemma to_double_int:
  "to_double (int k) = (if round53 k < overflow then Some (int (round53 k)) else None)"
  by (cases "k = 0") (simp_all add: to_double_def round53_exact)

lemma to_double_finite: "2 * k < overflow \<Longrightarrow> to_double (int k) = Some (int (round53 k))"
  using round53_le_double [of k] by (simp add: to_double_int)

lemma to_double_Infinity: "overflow \<le> k \<Longrightarrow> to_double (int k) = None"
  using round53_ge_power [of 1024 k] by (simp add: to_double_int overflow_def)

lemma round53_ge:
  assumes "k \<le> x" and "k \<le> 9007199254740992"
  shows "k \<le> round53 x"
proof (cases "x < 9007199254740992")
  case True
  then show ?thesis using assms(1) by (simp add: round53_exact)
next
  case False
  then have "9007199254740992 \<le> round53 x" by (simp add: round53_large)
  with assms(2) show ?thesis by simp
qed

lemma to_double_negative:
  assumes "to_double x = Some y" and "x \<le> - int k" and "0 < k" and "k \<le> 9007199254740992"
  shows "y \<le> - int k"
proof -
  from assms(2,3) have neg: "x < 0" by simp
  then have "k \<le> nat \<bar>x\<bar>" using assms(2) by simp
  then have "k \<le> round53 (nat \<bar>x\<bar>)" using assms(4) by (rule round53_ge)
  moreover from assms(1) neg have "y = - int (round53 (nat \<bar>x\<bar>))"
    by (auto simp: to_double_def split: if_splits)
  ultimately show ?thesis by simp
qed

text \<open>The first hashes of the stream that main.ts seeds with 42.\<close>

lemma hash_from_42:
  "hash (Some 42) = Some 1250496027" "hash (Some 1250496027) = Some 1116302080"
  "hash (Some 1116302080) = Some 1964818176"
  by code_simp+

lemma hash_NaN: "hash None = None"
  by (simp add: hash_def)

text \<open>The hash of a non-negative seed, in natural numbers.\<close>

lemma hash_int:
  "hash (Some (int k)) =
     (if round53 (1103515245 * k) < overflow
         \<and> round53 (round53 (1103515245 * k) + 12345) < overflow
      then Some (int (round53 (round53 (1103515245 * k) + 12345) mod 2147483648))
      else None)"
proof -
  have p: "RNG_a * int k = int (1103515245 * k)" by (simp add: RNG_a_def)
  have s: "int j + RNG_c = int (j + 12345)" for j by (simp add: RNG_c_def)
  have r: "js_rem (int j) RNG_m = int (j mod 2147483648)" for j
    by (cases "j = 0") (simp_all add: js_rem_def RNG_m_def zmod_int)
  let ?p = "1103515245 * k"
  have 1: "to_double (RNG_a * int k)
             = (if round53 ?p < overflow then Some (int (round53 ?p)) else None)"
    by (simp only: p to_double_int)
  have 2: "to_double (int (round53 ?p) + RNG_c)
             = (if round53 (round53 ?p + 12345) < overflow
                then Some (int (round53 (round53 ?p + 12345))) else None)"
    by (simp only: s to_double_int)
  show ?thesis
    by (simp add: hash_def 1 2 r)
qed

lemma hash_Some:
  assumes "hash (Some seed) = Some h" and "0 \<le> seed"
  obtains "h = int (round53 (round53 (1103515245 * nat seed) + 12345) mod 2147483648)"
  using assms hash_int [of "nat seed"] by (simp split: if_splits)

lemma hash_less:
  assumes "hash (Some seed) = Some h" and "0 \<le> seed"
  shows "0 \<le> h" and "h < RNG_m"
  using assms by (auto elim!: hash_Some simp: RNG_m_def)

text \<open>A product that has reached \<open>2 ^ 1024\<close> makes the hash \<open>NaN\<close>.\<close>

lemma hash_overflow:
  assumes "0 \<le> seed" and "int overflow \<le> RNG_a * seed"
  shows "hash (Some seed) = None"
proof -
  have "RNG_a * seed = int (nat (RNG_a * seed))" using assms by (simp add: RNG_a_def)
  moreover have "overflow \<le> nat (RNG_a * seed)" using assms(2) by simp
  then have "to_double (int (nat (RNG_a * seed))) = None" by (rule to_double_Infinity)
  ultimately have "to_double (RNG_a * seed) = None" by simp
  then show ?thesis by (simp add: hash_def)
qed

text \<open>
  A non-negative seed whose product and sum stay well below \<open>2 ^ 1024\<close> has a hash;
  so has every seed that is itself a hash, or any other seed from 0 to \<open>2 ^ 31\<close>.
\<close>

lemma hash_finite:
  assumes "4 * (1103515245 * k) + 24690 < overflow"
  shows "\<exists>h. hash (Some (int k)) = Some h"
proof -
  let ?p = "1103515245 * k"
  have "round53 ?p \<le> 2 * ?p" by (rule round53_le_double)
  with assms have 1: "round53 ?p < overflow" by simp
  have "round53 (round53 ?p + 12345) \<le> 2 * (round53 ?p + 12345)" by (rule round53_le_double)
  also have "\<dots> \<le> 4 * ?p + 24690" using round53_le_double [of ?p] by simp
  finally have "round53 (round53 ?p + 12345) < overflow" using assms by simp
  with 1 show ?thesis by (simp add: hash_int)
qed

lemma hash_number:
  assumes "0 \<le> seed" and "seed < RNG_m"
  shows "\<exists>h. hash (Some seed) = Some h"
proof -
  have "nat seed < 2147483648" using assms by (simp add: RNG_m_def)
  then have "4 * (1103515245 * nat seed) + 24690 < 9479530004384317466000" by simp
  moreover have "(9479530004384317466000 :: nat) < overflow" by (simp add: overflow_def)
  ultimately have "4 * (1103515245 * nat seed) + 24690 < overflow" by (rule less_trans)
  then have "\<exists>h. hash (Some (int (nat seed))) = Some h" by (rule hash_finite)
  with assms(1) show ?thesis by simp
qed

lemma hash_up_to:
  assumes "0 \<le> seed" and "seed \<le> 2 ^ 990"
  shows "hash (Some seed) \<noteq> None"
proof -
  have "nat seed \<le> 2 ^ 990" using assms by (simp add: nat_le_iff)
  then have "4 * (1103515245 * nat seed) + 24690 \<le> 4 * (1103515245 * 2 ^ 990) + 24690"
    by simp
  also have "\<dots> < overflow" by (simp add: overflow_def)
  finally have "\<exists>h. hash (Some (int (nat seed))) = Some h" by (rule hash_finite)
  with assms(1) show ?thesis by simp
qed

text \<open>The hash of a seed below zero is not above zero.\<close>

lemma hash_negative:
  assumes "hash (Some seed) = Some h" and "seed < 0"
  shows "h \<le> 0"
proof -
  from assms(1) obtain p q where p: "to_double (RNG_a * seed) = Some p"
    and q: "to_double (p + RNG_c) = Some q" and h: "h = js_rem q RNG_m"
    by (auto simp: hash_def split: option.splits)
  from assms(2) have "RNG_a * seed \<le> - int 1103515245" by (simp add: RNG_a_def)
  with p have "p \<le> - int 1103515245" by (rule to_double_negative) simp_all
  then have "p + RNG_c \<le> - int 1" by (simp add: RNG_c_def)
  with q have "q \<le> - int 1" by (rule to_double_negative) simp_all
  then have "sgn q = - 1" by simp
  then show ?thesis unfolding h js_rem_def by (simp add: RNG_m_def)
qed

text \<open>The exact generator reaches the largest hash only from seeds beyond 230 million.\<close>

lemma exact_hash_not_largest:
  assumes "seed \<le> 8162278"
  shows "(1103515245 * seed + 12345) mod 2147483648 \<noteq> (2147483647 :: nat)"
proof
  assume h: "(1103515245 * seed + 12345) mod 2147483648 = (2147483647 :: nat)"
  have "(1103515245 * seed + 12345 + 1) mod 2147483648
        = ((1103515245 * seed + 12345) mod 2147483648 + 1) mod (2147483648 :: nat)"
    by (simp only: mod_add_left_eq)
  also have "\<dots> = 0" by (simp only: h) simp
  finally have "(2147483648 :: nat) dvd 1103515245 * seed + 12345 + 1"
    by (simp only: mod_eq_0_iff_dvd)
  then have "(2147483648 :: nat) dvd 1857678181 * (1103515245 * seed + 12345 + 1)"
    by (rule dvd_mult)
  moreover have "1857678181 * (1103515245 * seed + 12345 + 1)
      = (seed + 1916945634) + 2147483648 * (954594553 * seed + 10679)"
    by (simp add: add_mult_distrib2)
  ultimately have "(2147483648 :: nat) dvd (seed + 1916945634) + 2147483648 * (954594553 * seed + 10679)"
    by (simp only:)
  then have "(2147483648 :: nat) dvd seed + 1916945634"
    using dvd_add_left_iff [OF dvd_triv_left] by blast
  then have "2147483648 \<le> seed + 1916945634" by (rule dvd_imp_le) simp
  with assms show False by simp
qed

text \<open>
  The rounded generator never produces the largest hash: a sum of \<open>2 ^ 53\<close> or more is
  rounded to an even number, a smaller sum comes from a seed that is too small, and a
  seed below zero has no hash above zero.
\<close>

lemma hash_not_largest: "hash x \<noteq> Some (RNG_m - 1)"
proof
  assume largest: "hash x = Some (RNG_m - 1)"
  then obtain seed where x: "x = Some seed" by (cases x) (simp_all add: hash_def)
  have nonneg: "0 \<le> seed"
  proof (rule ccontr)
    assume "\<not> 0 \<le> seed"
    then have "seed < 0" by simp
    with largest have "RNG_m - 1 \<le> 0" unfolding x by (rule hash_negative)
    then show False by (simp add: RNG_m_def)
  qed
  let ?k = "nat seed"
  let ?p = "1103515245 * ?k"
  let ?sum = "round53 ?p + 12345"
  from largest nonneg have "RNG_m - 1 = int (round53 ?sum mod 2147483648)"
    unfolding x by (rule hash_Some)
  then have h: "round53 ?sum mod 2147483648 = 2147483647" by (simp add: RNG_m_def)
  have not_even: "\<not> even (round53 ?sum)"
  proof
    assume "even (round53 ?sum)"
    then have "even (round53 ?sum mod 2147483648)" by (simp add: dvd_mod_iff)
    then show False by (simp only: h) simp
  qed
  have small_sum: "?sum < 9007199254740992"
  proof (rule ccontr)
    assume "\<not> ?sum < 9007199254740992"
    then have "even (round53 ?sum)" by (simp add: round53_large)
    with not_even show False ..
  qed
  have small: "?p < 9007199254740992"
  proof (rule ccontr)
    assume "\<not> ?p < 9007199254740992"
    then have "9007199254740992 \<le> round53 ?p" by (simp add: round53_large)
    with small_sum show False by simp
  qed
  then have p: "round53 ?p = ?p" by (rule round53_exact)
  with small_sum have "round53 ?sum = ?p + 12345" by (simp add: round53_exact)
  with h have "(1103515245 * ?k + 12345) mod 2147483648 = (2147483647 :: nat)"
    by simp
  moreover from small have "?k \<le> 8162278" by simp
  ultimately show False using exact_hash_not_largest [of ?k] by simp
qed

text \<open>
  Once the first hash of a non-negative seed is a number, every later one is, from 0
  to \<open>2 ^ 31 - 2\<close>.
\<close>

lemma stream_numbers:
  assumes "0 \<le> seed" and "hash (Some seed) \<noteq> None"
  shows "\<exists>h. (hash ^^ Suc n) (Some seed) = Some h \<and> 0 \<le> h \<and> h < RNG_m \<and> h \<noteq> RNG_m - 1"
proof (induction n)
  case 0
  from assms obtain h where h: "hash (Some seed) = Some h" by blast
  then have "0 \<le> h" and "h < RNG_m" using assms(1) by (rule hash_less)+
  moreover have "h \<noteq> RNG_m - 1" using h hash_not_largest [of "Some seed"] by auto
  ultimately show ?case using h by simp
next
  case (Suc n)
  then obtain h where h: "(hash ^^ Suc n) (Some seed) = Some h" and "0 \<le> h" and "h < RNG_m"
    by blast
  then obtain h' where h': "hash (Some h) = Some h'" using hash_number by blast
  then have "0 \<le> h'" and "h' < RNG_m" using \<open>0 \<le> h\<close> by (rule hash_less)+
  moreover have "h' \<noteq> RNG_m - 1" using h' hash_not_largest [of "Some h"] by auto
  moreover have "(hash ^^ Suc (Suc n)) (Some seed) = hash ((hash ^^ Suc n) (Some seed))"
    by simp
  ultimately show ?case using h h' by (simp del: funpow.simps)
qed

text \<open>Once a hash is \<open>NaN\<close>, every later one is.\<close>

lemma stream_NaN: "hash x = None \<Longrightarrow> (hash ^^ Suc n) x = None"
  by (induction n) (simp_all add: hash_NaN)

text \<open>The scaled value of a hash from 0 to \<open>2 ^ 31 - 1\<close> lies between -1 and 1.\<close>

lemma scale_bounds:
  assumes "0 \<le> h" and "h < RNG_m"
  obtains v where "scale (Some h) = Some v" and "- 1 \<le> v" and "v \<le> 1"
proof -
  have "h \<le> RNG_m - 1" using assms(2) by simp
  then have "(of_int h :: rat) \<le> of_int (RNG_m - 1)" by (simp only: of_int_le_iff)
  then have le: "(of_int h :: rat) \<le> of_int RNG_m - 1" by simp
  have pos: "(0 :: rat) < of_int RNG_m - 1" by (simp add: RNG_m_def)
  from le pos have "2 * of_int h / (of_int RNG_m - 1) \<le> (2 :: rat)"
    by (simp add: pos_divide_le_eq)
  then have hi: "2 * of_int h / (of_int RNG_m - 1) - 1 \<le> (1 :: rat)" by simp
  have "(0 :: rat) \<le> of_int h" using assms(1) by simp
  then have "(0 :: rat) \<le> 2 * of_int h / (of_int RNG_m - 1)"
    using pos by simp
  then have lo: "- 1 \<le> 2 * of_int h / (of_int RNG_m - 1) - (1 :: rat)" by simp
  show ?thesis
    by (rule that [of "2 * of_int h / (of_int RNG_m - 1) - 1"]) (simp_all add: scale_def lo hi)
qed

text \<open>The scaled value is 1 for the largest hash only.\<close>

lemma scale_less_one:
  assumes "h < RNG_m - 1" and "scale (Some h) = Some v"
  shows "v < 1"
proof -
  have "(of_int h :: rat) < of_int (RNG_m - 1)" using assms(1) by (simp only: of_int_less_iff)
  then have lt: "(of_int h :: rat) < of_int RNG_m - 1" by simp
  have pos: "(0 :: rat) < of_int RNG_m - 1" by (simp add: RNG_m_def)
  from lt pos have "2 * of_int h / (of_int RNG_m - 1) < (2 :: rat)"
    by (simp add: pos_divide_less_eq)
  then show ?thesis using assms(2) by (auto simp: scale_def)
qed

lemma scale_largest: "scale (Some (RNG_m - 1)) = Some 1"
  by (simp add: scale_def RNG_m_def)

lemma scale_one:
  assumes "scale (Some h) = Some 1"
  shows "h = RNG_m - 1"
proof -
  have pos: "(0 :: rat) < of_int RNG_m - 1" by (simp add: RNG_m_def)
  from assms have "2 * of_int h / (of_int RNG_m - 1) = (2 :: rat)" by (simp add: scale_def)
  with pos have "(of_int h :: rat) = of_int RNG_m - 1" by (simp add: divide_eq_eq)
  then have "(of_int h :: rat) = of_int (RNG_m - 1)" by simp
  then show ?thesis by (simp only: of_int_eq_iff)
qed

lemma nth_call_lazyRNG: "nth_call n (lazyRNG x) = scale ((hash ^^ Suc n) x)"
proof (induction n arbitrary: x)
  case 0
  show ?case by (simp add: getRandomValue_def seq_next_def lazyRNG_def)
next
  case (Suc n)
  have "nth_call (Suc n) (lazyRNG x) = nth_call n (lazyRNG (hash x))"
    by (simp add: getRandomValue_def seq_next_def lazyRNG_def)
  also have "\<dots> = scale ((hash ^^ Suc n) (hash x))" by (rule Suc.IH)
  also have "\<dots> = scale ((hash ^^ Suc (Suc n)) x)" by (simp add: funpow_swap1)
  finally show ?case .
qed

text \<open>No call of a stream returns 1, whatever the seed.\<close>

lemma nth_call_not_one: "nth_call n (createTriggeredRngStream seed) \<noteq> Some 1"
proof
  assume one: "nth_call n (createTriggeredRngStream seed) = Some 1"
  let ?x = "(hash ^^ n) (Some seed)"
  have "nth_call n (createTriggeredRngStream seed) = scale (hash ?x)"
    by (simp add: createTriggeredRngStream_def nth_call_lazyRNG)
  with one obtain h where h: "hash ?x = Some h" and s: "scale (Some h) = Some 1"
    by (cases "hash ?x") (auto simp: scale_def)
  from s have "h = RNG_m - 1" by (rule scale_one)
  with h show False using hash_not_largest [of ?x] by simp
qed

text \<open>
  A seed below zero: the remainder keeps the sign, and the first value of the stream
  seeded with -1 is below -2.
\<close>

lemma negative_seed_below_range:
  "hash (Some (- 1)) = Some (- 1103502900)"
  "nth_call 0 (createTriggeredRngStream (- 1)) = Some (- (4354489447 / 2147483647))"
  "- (4354489447 / 2147483647) < (- 2 :: rat)"
proof -
  show h: "hash (Some (- 1)) = Some (- 1103502900)" by code_simp
  show "nth_call 0 (createTriggeredRngStream (- 1)) = Some (- (4354489447 / 2147483647))"
    by (simp add: createTriggeredRngStream_def nth_call_lazyRNG h scale_def RNG_m_def)
  show "- (4354489447 / 2147483647) < (- 2 :: rat)" by simp
qed

section \<open>The random index of a miss\<close>

lemma randomIndex_range:
  assumes "- 1 \<le> v" and "v < 1" and "0 < n"
  shows "0 \<le> randomIndex v n" and "randomIndex v n < int n"
proof -
  have n: "(0 :: rat) < of_nat n" using assms(3) by simp
  have "0 \<le> (v + 1) / 2" using assms(1) by simp
  then have "0 \<le> (v + 1) / 2 * of_nat n" by simp
  then show "0 \<le> randomIndex v n" by (simp add: randomIndex_def)
  have "(v + 1) / 2 < 1" using assms(2) by simp
  then have "(v + 1) / 2 * of_nat n < 1 * of_nat n"
    using n by (rule mult_strict_right_mono)
  then have "(v + 1) / 2 * of_nat n < of_int (int n)" by simp
  then show "randomIndex v n < int n"
    unfolding randomIndex_def by (simp only: floor_less_iff)
qed

lemma randomIndex_at_one: "randomIndex 1 n = int n"
  by (simp add: randomIndex_def)

text \<open>
  With a chart that is not empty and a stream at a non-negative value whose hash is a
  number, the lookup of a miss is within the chart: the press returns with the score
  one lower, but not below 0, and nothing else in the state changed, unless the sound
  of the note that was looked up cannot be triggered.
\<close>

lemma handleKeyPress_miss_in_bounds:
  assumes miss: "find (inHitRange (keyToPositionMapping k)) (circles s) = None"
    and chart: "notes' s \<noteq> []"
    and current: "seq_value (currentSequence env) = Some x" "0 \<le> x"
    and number: "hash (Some x) \<noteq> None"
  shows "\<exists>n \<in> set (notes' s).
           handleKeyPress k s samples env =
             (case playSound (Some n) samples (audio env) of
                Inl e \<Rightarrow> Inl e
              | Inr sounded \<Rightarrow>
                  Inr (s\<lparr>score := max 0 (score s - 1)\<rparr>,
                       env\<lparr>currentSequence := seq_next (currentSequence env),
                           audio := sounded\<rparr>))"
proof -
  from number obtain h where h: "hash (Some x) = Some h" by blast
  then have nonneg: "0 \<le> h" and less: "h < RNG_m" using current(2) by (rule hash_less)+
  moreover from h have "h \<noteq> RNG_m - 1" using hash_not_largest [of "Some x"] by auto
  ultimately have "h < RNG_m - 1" by simp
  from nonneg less obtain v where v: "scale (Some h) = Some v" and lo: "- 1 \<le> v"
    by (rule scale_bounds)
  from \<open>h < RNG_m - 1\<close> v have hi: "v < 1" by (rule scale_less_one)
  have n: "0 < length (notes' s)" using chart by simp
  let ?i = "randomIndex v (length (notes' s))"
  have "0 \<le> ?i" and "?i < int (length (notes' s))"
    using lo hi n by (rule randomIndex_range)+
  then have "js_index (notes' s) ?i = Some (notes' s ! nat ?i)" and "nat ?i < length (notes' s)"
    by (simp_all add: js_index_def)
  moreover have "scale (seq_value (seq_next (currentSequence env))) = Some v"
    using h v current(1) by (simp add: seq_next_def lazyRNG_def)
  ultimately show ?thesis
    by (intro bexI [of _ "notes' s ! nat ?i"])
      (simp_all add: handleKeyPress_miss [OF miss] Let_def)
qed

text \<open>With an empty chart the lookup of a miss is \<open>undefined\<close> whatever the index.\<close>

lemma handleKeyPress_miss_empty_chart:
  assumes "find (inHitRange (keyToPositionMapping k)) (circles s) = None" and "notes' s = []"
  shows "handleKeyPress k s samples env = Inl TypeError"
  using assms(2)
  by (auto simp: handleKeyPress_miss [OF assms(1)] Let_def js_index_def playSound_def
      split: option.split)

text \<open>So it is when the stream has run into \<open>NaN\<close>.\<close>

lemma handleKeyPress_miss_NaN:
  assumes "find (inHitRange (keyToPositionMapping k)) (circles s) = None"
    and "hash (seq_value (currentSequence env)) = None"
  shows "handleKeyPress k s samples env = Inl TypeError"
  using assms(2)
  by (simp add: handleKeyPress_miss [OF assms(1)] Let_def seq_next_def lazyRNG_def scale_def
      playSound_def)

section \<open>What every run preserves\<close>

lemma step_update:
  assumes "step samples ev w = Inr w'"
  obtains u where "update samples ev w = Inr u"
    and "w' = (fst u, snd u\<lparr>svg := render (fst u) (svg (snd u))\<rparr>)"
  using assms by (auto simp: step_def split: sum.splits)

subsection \<open>The score\<close>

lemma update_score:
  assumes "update samples ev (s, env) = Inr (s', env')" and "0 \<le> score s"
  shows "0 \<le> score s'"
proof (cases ev)
  case (KeyPress k)
  show ?thesis
  proof (cases "find (inHitRange (keyToPositionMapping k)) (circles s)")
    case None
    with assms KeyPress show ?thesis
      by (auto simp: handleKeyPress_miss Let_def split: sum.splits)
  next
    case (Some h)
    with assms KeyPress show ?thesis
      by (auto simp: handleKeyPress_hit split: sum.splits if_splits)
  qed
qed (use assms in \<open>auto simp: Tick_apply_def UpdateCircleState_apply_def RemoveCircle_apply_def
       GameEnd_apply_def Let_def split: sum.splits if_splits\<close>)

lemma run_score:
  assumes "run samples evs w = Inr w'" and "0 \<le> score (fst w)"
  shows "0 \<le> score (fst w')"
  using assms
proof (induction evs arbitrary: w)
  case Nil
  then show ?case by simp
next
  case (Cons ev evs)
  from Cons.prems(1) obtain w1 where st: "step samples ev w = Inr w1"
    and rest: "run samples evs w1 = Inr w'"
    by (auto split: sum.splits)
  from st obtain u where u: "update samples ev w = Inr u" and w1: "fst w1 = fst u"
    by (rule step_update) simp
  from u Cons.prems(2) have "0 \<le> score (fst u)"
    using update_score [of samples ev "fst w" "snd w" "fst u" "snd u"] by simp
  with rest w1 show ?case by (simp add: Cons.IH)
qed

subsection \<open>The exit list\<close>

lemma update_on_lane:
  assumes "update samples ev (s, env) = Inr (s', env')" and "on_lane s"
  shows "on_lane s'"
proof (cases ev)
  case Clock
  have "filter (\<lambda>c. yPos c > 350) (circles s) = []"
    using assms(2) by (auto simp: on_lane_def list_all_iff filter_empty_conv)
  moreover have "list_all (\<lambda>c. yPos c \<le> 350) (circles (Tick_apply (heap env) s))"
    by (simp add: list_all_iff Tick_circles_le)
  ultimately show ?thesis using assms Clock by (auto simp: on_lane_def Tick_exits)
next
  case (KeyPress k)
  show ?thesis
  proof (cases "find (inHitRange (keyToPositionMapping k)) (circles s)")
    case None
    with assms KeyPress show ?thesis
      by (auto simp: handleKeyPress_miss Let_def on_lane_def split: sum.splits)
  next
    case (Some h)
    with assms KeyPress show ?thesis
      by (auto simp: handleKeyPress_hit on_lane_def list_all_iff split: sum.splits if_splits)
  qed
qed (use assms in \<open>auto simp: on_lane_def list_all_iff UpdateCircleState_apply_def
       RemoveCircle_apply_def createCircleObj_def GameEnd_apply_def Let_def
       split: sum.splits if_splits\<close>)

lemma run_on_lane:
  assumes "run samples evs w = Inr w'" and "on_lane (fst w)"
  shows "on_lane (fst w')"
  using assms
proof (induction evs arbitrary: w)
  case Nil
  then show ?case by simp
next
  case (Cons ev evs)
  from Cons.prems(1) obtain w1 where st: "step samples ev w = Inr w1"
    and rest: "run samples evs w1 = Inr w'"
    by (auto split: sum.splits)
  from st obtain u where u: "update samples ev w = Inr u" and w1: "fst w1 = fst u"
    by (rule step_update) simp
  from u Cons.prems(2) have "on_lane (fst u)"
    using update_on_lane [of samples ev "fst w" "snd w" "fst u" "snd u"] by simp
  with rest w1 show ?case by (simp add: Cons.IH)
qed

lemma start_on_lane: "on_lane (fst (start_of chart seed canvas))"
  by (simp add: on_lane_def start_of_def initialState_def)

subsection \<open>The canvas\<close>

lemma set_appendChild: "set (appendChild e children) = insert e (set children)"
  by (auto simp: appendChild_def)

lemma set_render:
  "set (render s children) = set children \<union> (\<lambda>c. elem_ref (circle c)) ` set (circles s)"
proof -
  have "set (foldl (\<lambda>children c. appendChild (elem_ref (circle c)) children) children cs)
        = set children \<union> (\<lambda>c. elem_ref (circle c)) ` set cs" for cs
    by (induction cs arbitrary: children) (auto simp: set_appendChild)
  then show ?thesis by (simp add: render_def)
qed

text \<open>After every event the subscriber has put all circles of the new state on the canvas.\<close>

lemma step_on_canvas:
  assumes "step samples ev w = Inr w'"
  shows "on_canvas w'"
  using assms by (auto simp: step_def on_canvas_def list_all_iff set_render split: sum.splits)

lemma start_on_canvas: "on_canvas (start_of chart seed canvas)"
  by (simp add: on_canvas_def start_of_def initialState_def)

lemma update_not_NotFoundError:
  assumes "on_canvas w"
  shows "update samples ev w \<noteq> Inl NotFoundError"
proof (cases w)
  case (Pair s env)
  show ?thesis
  proof (cases ev)
    case (KeyPress k)
    show ?thesis
    proof (cases "find (inHitRange (keyToPositionMapping k)) (circles s)")
      case None
      then show ?thesis using Pair KeyPress
        by (auto simp: handleKeyPress_miss Let_def split: sum.split dest: playSound_error)
    next
      case (Some h)
      then have "h \<in> set (circles s)" by (auto simp: find_Some_iff)
      then have "elem_ref (circle h) \<in> set (svg env)"
        using assms Pair by (simp add: on_canvas_def list_all_iff)
      then show ?thesis using Pair KeyPress Some
        by (auto simp: handleKeyPress_hit split: sum.split dest: playSound_error)
    qed
  qed (use Pair in \<open>auto simp: Let_def split: sum.split dest: playSound_error\<close>)
qed

text \<open>So \<open>removeChild\<close> never throws in a run of the loop.\<close>

lemma run_not_NotFoundError:
  assumes "on_canvas w"
  shows "run samples evs w \<noteq> Inl NotFoundError"
  using assms
proof (induction evs arbitrary: w)
  case Nil
  then show ?case by simp
next
  case (Cons ev evs)
  show ?case
  proof (cases "step samples ev w")
    case (Inl e)
    then have "update samples ev w = Inl e" by (auto simp: step_def split: sum.splits)
    then have "e \<noteq> NotFoundError" using update_not_NotFoundError [OF Cons.prems] by auto
    with Inl show ?thesis by simp
  next
    case (Inr w')
    then have "on_canvas w'" by (rule step_on_canvas)
    then show ?thesis using Inr Cons.IH by simp
  qed
qed

subsection \<open>Object identity of the circles\<close>

lemma update_fresh_refs:
  assumes "update samples ev w = Inr w'" and "fresh_refs w"
  shows "fresh_refs w'"
proof (cases w)
  case (Pair s env)
  show ?thesis
  proof (cases ev)
    case Clock
    let ?t = "Tick_apply (heap env) s"
    let ?kept = "filter (\<lambda>(r, c). yPos c + 5 \<le> 350) (enumerate (heap env) (circles s))"
    have refs: "map obj_ref (circles ?t) = map fst ?kept" by (rule Tick_refs)
    have "distinct (map fst (enumerate (heap env) (circles s)))" by simp
    then have "distinct (map fst ?kept)" by (rule distinct_map_filter)
    then have d: "distinct (map obj_ref (circles ?t))" by (simp only: refs)
    have "obj_ref c < heap env + length (circles s)" if "c \<in> set (circles ?t)" for c
    proof -
      from that have "obj_ref c \<in> set (map obj_ref (circles ?t))" by simp
      then have "obj_ref c \<in> set (map fst ?kept)" by (simp only: refs)
      then show ?thesis by (auto simp: in_set_enumerate_eq)
    qed
    with d show ?thesis using assms Pair Clock
      by (auto simp: fresh_refs_def list_all_iff)
  next
    case (KeyPress k)
    show ?thesis
    proof (cases "find (inHitRange (keyToPositionMapping k)) (circles s)")
      case None
      with assms Pair KeyPress show ?thesis
        by (auto simp: handleKeyPress_miss Let_def fresh_refs_def split: sum.splits)
    next
      case (Some h)
      with assms Pair KeyPress show ?thesis
        by (auto simp: handleKeyPress_hit fresh_refs_def list_all_iff distinct_map_filter
            split: sum.splits if_splits)
    qed
  next
    case (UserPlayNote n)
    with assms Pair show ?thesis
      by (fastforce simp: fresh_refs_def list_all_iff UpdateCircleState_apply_def
          createCircleObj_def)
  next
    case (Remove n)
    with assms Pair show ?thesis
      by (auto simp: fresh_refs_def list_all_iff RemoveCircle_apply_def distinct_map_filter)
  qed (use assms Pair in \<open>auto simp: fresh_refs_def GameEnd_apply_def
         split: sum.splits if_splits\<close>)
qed

text \<open>
  In a run no object occupies two slots of \<open>circles\<close>, so the filter of a hit takes
  out one slot.
\<close>

lemma run_fresh_refs:
  assumes "run samples evs w = Inr w'" and "fresh_refs w"
  shows "fresh_refs w'"
  using assms
proof (induction evs arbitrary: w)
  case Nil
  then show ?case by simp
next
  case (Cons ev evs)
  from Cons.prems(1) obtain w1 where st: "step samples ev w = Inr w1"
    and rest: "run samples evs w1 = Inr w'"
    by (auto split: sum.splits)
  from st obtain u where u: "update samples ev w = Inr u"
    and w1: "w1 = (fst u, snd u\<lparr>svg := render (fst u) (svg (snd u))\<rparr>)"
    by (rule step_update)
  from u Cons.prems(2) have "fresh_refs u" by (rule update_fresh_refs)
  then have "fresh_refs w1" by (simp add: w1 fresh_refs_def)
  with rest show ?case by (rule Cons.IH)
qed

lemma start_fresh_refs: "fresh_refs (start_of chart seed canvas)"
  by (simp add: fresh_refs_def start_of_def initialState_def)

subsection \<open>Independence of addresses and canvas\<close>

lemma filter_alike:
  assumes "map v xs = map v ys" and "\<And>x y. v x = v y \<Longrightarrow> P x = Q y"
  shows "map v (filter P xs) = map v (filter Q ys)"
  using assms(1)
proof (induction xs arbitrary: ys)
  case Nil
  then show ?case by simp
next
  case (Cons x xs)
  then obtain y ys' where ys: "ys = y # ys'" and xy: "v x = v y" and rest: "map v xs = map v ys'"
    by (cases ys) auto
  from xy have "P x = Q y" by (rule assms(2))
  with Cons.IH [OF rest] xy show ?case by (simp add: ys)
qed

lemma moved_visible:
  "map visible_circle (map (\<lambda>(r, c). c\<lparr>obj_ref := r, yPos := yPos c + 5\<rparr>) (enumerate h xs))
     = map (\<lambda>(n, x, y). (n, x, y + 5)) (map visible_circle xs)"
  by (induction xs arbitrary: h) (simp_all add: visible_circle_def)

lemma Tick_alike:
  assumes "visible s1 = visible s2"
  shows "visible (Tick_apply h1 s1) = visible (Tick_apply h2 s2)"
proof -
  from assms have c: "map visible_circle (circles s1) = map visible_circle (circles s2)"
    and e: "map visible_circle (exits s1) = map visible_circle (exits s2)"
    and rest: "gameEnd s1 = gameEnd s2" "notes' s1 = notes' s2" "score s1 = score s2"
      "time s1 = time s2"
    by (simp_all add: visible_def)
  let ?move = "\<lambda>h xs. map (\<lambda>(r, c). c\<lparr>obj_ref := r, yPos := yPos c + 5\<rparr>) (enumerate h xs)"
  have "map visible_circle (?move h1 (circles s1)) = map visible_circle (?move h2 (circles s2))"
    by (simp only: moved_visible c)
  then have kept: "map visible_circle (filter (\<lambda>c. yPos c \<le> 350) (?move h1 (circles s1)))
      = map visible_circle (filter (\<lambda>c. yPos c \<le> 350) (?move h2 (circles s2)))"
    by (rule filter_alike) (simp add: visible_circle_def)
  have gone: "map visible_circle (filter (\<lambda>c. yPos c > 350) (circles s1))
      = map visible_circle (filter (\<lambda>c. yPos c > 350) (circles s2))"
    using c by (rule filter_alike) (simp add: visible_circle_def)
  from kept gone e rest show ?thesis by (simp add: visible_def Tick_apply_def)
qed

text \<open>
  A key press finds its circle at the same place in both lists, and taking out the
  object found leaves lists that show the same.
\<close>

lemma hit_alike:
  assumes "map visible_circle xs = map visible_circle ys"
    and "distinct (map obj_ref xs)" and "distinct (map obj_ref ys)"
  shows "(find (inHitRange t) xs = None \<and> find (inHitRange t) ys = None)
       \<or> (\<exists>h1 h2. find (inHitRange t) xs = Some h1 \<and> find (inHitRange t) ys = Some h2
             \<and> note' h1 = note' h2
             \<and> map visible_circle (filter (\<lambda>c. obj_ref c \<noteq> obj_ref h1) xs)
                 = map visible_circle (filter (\<lambda>c. obj_ref c \<noteq> obj_ref h2) ys))"
  using assms
proof (induction xs arbitrary: ys)
  case Nil
  then show ?case by simp
next
  case (Cons x xs)
  from Cons.prems(1) obtain y ys' where ys: "ys = y # ys'"
    and xy: "visible_circle x = visible_circle y"
    and rest: "map visible_circle xs = map visible_circle ys'"
    by (cases ys) auto
  from xy have same: "inHitRange t x = inHitRange t y" and nt: "note' x = note' y"
    by (simp_all add: visible_circle_def inHitRange_def)
  from Cons.prems(2) have dx: "distinct (map obj_ref xs)" and nx: "\<forall>c \<in> set xs. obj_ref c \<noteq> obj_ref x"
    by (auto simp: image_iff)
  from Cons.prems(3) ys have dy: "distinct (map obj_ref ys')"
    and ny: "\<forall>c \<in> set ys'. obj_ref c \<noteq> obj_ref y"
    by (auto simp: image_iff)
  show ?case
  proof (cases "inHitRange t x")
    case True
    have "filter (\<lambda>c. obj_ref c \<noteq> obj_ref x) xs = xs" using nx by (simp add: filter_id_conv)
    moreover have "filter (\<lambda>c. obj_ref c \<noteq> obj_ref y) ys' = ys'"
      using ny by (simp add: filter_id_conv)
    ultimately show ?thesis using True same nt rest by (simp add: ys)
  next
    case False
    from Cons.IH [OF rest dx dy] show ?thesis
    proof (elim disjE conjE exE)
      assume "find (inHitRange t) xs = None" "find (inHitRange t) ys' = None"
      with False same show ?thesis by (simp add: ys)
    next
      fix h1 h2
      assume f1: "find (inHitRange t) xs = Some h1" and f2: "find (inHitRange t) ys' = Some h2"
        and n: "note' h1 = note' h2"
        and m: "map visible_circle (filter (\<lambda>c. obj_ref c \<noteq> obj_ref h1) xs)
                 = map visible_circle (filter (\<lambda>c. obj_ref c \<noteq> obj_ref h2) ys')"
      from f1 have "h1 \<in> set xs" by (auto simp: find_Some_iff)
      with nx have k1: "obj_ref x \<noteq> obj_ref h1" by auto
      from f2 have "h2 \<in> set ys'" by (auto simp: find_Some_iff)
      with ny have k2: "obj_ref y \<noteq> obj_ref h2" by auto
      from False same f1 f2 n m k1 k2 xy show ?thesis by (simp add: ys)
    qed
  qed
qed

lemma update_shows_same:
  assumes "alike w1 w2"
  shows "rel_sum (=) shows_same (update samples ev w1) (update samples ev w2)"
proof -
  obtain s1 env1 s2 env2 where w: "w1 = (s1, env1)" "w2 = (s2, env2)"
    by (cases w1; cases w2) simp
  from assms have v: "visible s1 = visible s2"
    and q: "currentSequence env1 = currentSequence env2"
    and a: "audio env1 = audio env2"
    and d1: "distinct (map obj_ref (circles s1))" and d2: "distinct (map obj_ref (circles s2))"
    and c1: "\<forall>c \<in> set (circles s1). elem_ref (circle c) \<in> set (svg env1)"
    and c2: "\<forall>c \<in> set (circles s2). elem_ref (circle c) \<in> set (svg env2)"
    by (simp_all add: alike_def shows_same_def fresh_refs_def on_canvas_def list_all_iff w)
  from v have cs: "map visible_circle (circles s1) = map visible_circle (circles s2)"
    and es: "map visible_circle (exits s1) = map visible_circle (exits s2)"
    and rest: "gameEnd s1 = gameEnd s2" "notes' s1 = notes' s2" "score s1 = score s2"
      "time s1 = time s2"
    by (simp_all add: visible_def)
  show ?thesis
  proof (cases ev)
    case Clock
    then show ?thesis using Tick_alike [OF v] q a by (simp add: w shows_same_def)
  next
    case (UserPlayNote n)
    then show ?thesis using cs es rest q a
      by (simp add: w shows_same_def visible_def UpdateCircleState_apply_def
          createCircleObj_def visible_circle_def)
  next
    case (BackGroundNote n)
    have "playSound (Some n) samples (audio env1) = playSound (Some n) samples (audio env2)"
      by (simp only: a)
    then show ?thesis using BackGroundNote v q
      by (cases "playSound (Some n) samples (audio env2)") (simp_all add: w shows_same_def)
  next
    case (KeyPress k)
    let ?t = "keyToPositionMapping k"
    from hit_alike [OF cs d1 d2, of ?t] show ?thesis
    proof (elim disjE conjE exE)
      assume f1: "find (inHitRange ?t) (circles s1) = None"
        and f2: "find (inHitRange ?t) (circles s2) = None"
      let ?note = "\<lambda>s env. case scale (seq_value (seq_next (currentSequence env))) of
                     None \<Rightarrow> None
                   | Some v \<Rightarrow> js_index (notes' s) (randomIndex v (length (notes' s)))"
      have "playSound (?note s1 env1) samples (audio env1)
          = playSound (?note s2 env2) samples (audio env2)"
        by (simp only: rest q a)
      then show ?thesis using KeyPress es cs rest q
        by (cases "playSound (?note s2 env2) samples (audio env2)")
          (simp_all add: w handleKeyPress_miss [OF f1] handleKeyPress_miss [OF f2] Let_def
            shows_same_def visible_def)
    next
      fix h1 h2
      assume f1: "find (inHitRange ?t) (circles s1) = Some h1"
        and f2: "find (inHitRange ?t) (circles s2) = Some h2"
        and n: "note' h1 = note' h2"
        and m: "map visible_circle (filter (\<lambda>c. obj_ref c \<noteq> obj_ref h1) (circles s1))
                 = map visible_circle (filter (\<lambda>c. obj_ref c \<noteq> obj_ref h2) (circles s2))"
      from f1 have "h1 \<in> set (circles s1)" by (auto simp: find_Some_iff)
      with c1 have on1: "elem_ref (circle h1) \<in> set (svg env1)" by auto
      from f2 have "h2 \<in> set (circles s2)" by (auto simp: find_Some_iff)
      with c2 have on2: "elem_ref (circle h2) \<in> set (svg env2)" by auto
      have "playSound (Some (note' h1)) samples (audio env1)
          = playSound (Some (note' h2)) samples (audio env2)"
        by (simp only: n a)
      then show ?thesis using KeyPress m on1 on2 es rest q
        by (cases "playSound (Some (note' h2)) samples (audio env2)")
          (simp_all add: w handleKeyPress_hit [OF f1] handleKeyPress_hit [OF f2] shows_same_def
            visible_def)
    qed
  next
    case (Remove n)
    have "map visible_circle (filter (\<lambda>c. note_ref (note' c) \<noteq> note_ref n) (circles s1))
        = map visible_circle (filter (\<lambda>c. note_ref (note' c) \<noteq> note_ref n) (circles s2))"
      using cs by (rule filter_alike) (simp add: visible_circle_def)
    then show ?thesis using Remove es rest q a
      by (simp add: w shows_same_def visible_def RemoveCircle_apply_def)
  next
    case End
    then show ?thesis using cs es rest q a
      by (simp add: w shows_same_def visible_def GameEnd_apply_def)
  qed
qed

lemma step_alike:
  assumes "alike w1 w2"
  shows "rel_sum (=) alike (step samples ev w1) (step samples ev w2)"
proof (cases "step samples ev w1")
  case (Inl e)
  then have "update samples ev w1 = Inl e" by (auto simp: step_def split: sum.splits)
  with update_shows_same [OF assms, of samples ev] have "update samples ev w2 = Inl e"
    by (cases "update samples ev w2") simp_all
  then have "step samples ev w2 = Inl e" by (simp add: step_def)
  with Inl show ?thesis by simp
next
  case (Inr v1)
  then obtain u1 where u1: "update samples ev w1 = Inr u1"
    and v1: "v1 = (fst u1, snd u1\<lparr>svg := render (fst u1) (svg (snd u1))\<rparr>)"
    by (rule step_update)
  with update_shows_same [OF assms, of samples ev] obtain u2
    where u2: "update samples ev w2 = Inr u2" and same: "shows_same u1 u2"
    by (cases "update samples ev w2") simp_all
  let ?v2 = "(fst u2, snd u2\<lparr>svg := render (fst u2) (svg (snd u2))\<rparr>)"
  from u2 have s2: "step samples ev w2 = Inr ?v2"
    by (simp add: step_def split: prod.split)
  from assms have "fresh_refs w1" "fresh_refs w2" by (simp_all add: alike_def)
  with u1 u2 have "fresh_refs u1" "fresh_refs u2" by (auto intro: update_fresh_refs)
  then have f: "fresh_refs v1" "fresh_refs ?v2" by (simp_all add: v1 fresh_refs_def)
  have c: "on_canvas v1" "on_canvas ?v2" using Inr s2 by (auto intro: step_on_canvas)
  from same have "shows_same v1 ?v2" by (simp add: v1 shows_same_def)
  with f c have "alike v1 ?v2" by (simp add: alike_def)
  with Inr s2 show ?thesis by simp
qed

lemma run_alike:
  assumes "alike w1 w2"
  shows "rel_sum (=) alike (run samples evs w1) (run samples evs w2)"
  using assms
proof (induction evs arbitrary: w1 w2)
  case Nil
  then show ?case by simp
next
  case (Cons ev evs)
  have st: "rel_sum (=) alike (step samples ev w1) (step samples ev w2)"
    using Cons.prems by (rule step_alike)
  show ?case
  proof (cases "step samples ev w1")
    case (Inl e)
    with st show ?thesis by (cases "step samples ev w2") simp_all
  next
    case (Inr v1)
    with st obtain v2 where "step samples ev w2 = Inr v2" and "alike v1 v2"
      by (cases "step samples ev w2") simp_all
    with Inr Cons.IH [of v1 v2] show ?thesis by simp
  qed
qed

subsection \<open>The one-note session at the hit line\<close>

lemma scenario_reaches_hit_line:
  "run instruments (UserPlayNote scenario_note # replicate 64 Clock) scenario_start
     = Inr scenario_at_hit_line"
  by code_simp

section \<open>What a hit does\<close>

text \<open>
  \<open>h\<close> is the first circle of the key's lane in the hit range. Its element is on the
  canvas, as it is throughout a run (\<open>step_on_canvas\<close>), and the instrument of its
  note is a loaded sampler or no member of \<open>samples\<close> at all. Then the press returns
  a state: the circles left are those that are not the object \<open>h\<close>, unchanged and in
  their order; when no object occupies two slots, as in a run (\<open>run_fresh_refs\<close>),
  that is the list with the one slot of \<open>h\<close> taken out. The score is 10 higher and
  nothing else changed.
\<close>

lemma handleKeyPress_hit_removes:
  assumes found: "find (inHitRange (keyToPositionMapping k)) (circles s) = Some h"
    and child: "elem_ref (circle h) \<in> set (svg env)"
    and sampler: "samples_get samples (instrument_name (note' h)) \<noteq> Inherited"
  shows "\<exists>s' env'. handleKeyPress k s samples env = Inr (s', env')
           \<and> h \<in> set (circles s) \<and> h \<notin> set (circles s')
           \<and> circles s' = filter (\<lambda>c. obj_ref c \<noteq> obj_ref h) (circles s)
           \<and> (distinct (map obj_ref (circles s)) \<longrightarrow> circles s' = remove1 h (circles s))
           \<and> score s' = score s + 10
           \<and> exits s' = exits s \<and> notes' s' = notes' s \<and> time s' = time s
           \<and> gameEnd s' = gameEnd s"
proof -
  from found have h: "h \<in> set (circles s)"
    by (auto simp: find_Some_iff)
  then have "distinct (map obj_ref (circles s)) \<longrightarrow>
      filter (\<lambda>c. obj_ref c \<noteq> obj_ref h) (circles s) = remove1 h (circles s)"
    by (simp add: filter_ref_remove1)
  moreover from sampler obtain sounded
    where "playSound (Some (note' h)) samples (audio env) = Inr sounded"
    by (cases "samples_get samples (instrument_name (note' h))") (simp_all add: playSound_def)
  ultimately show ?thesis
    using child h by (simp add: handleKeyPress_hit [OF found])
qed

text \<open>
  When the instrument of the note is an inherited member of \<open>samples\<close>, the press
  throws and returns no state.
\<close>

lemma handleKeyPress_hit_inherited:
  assumes "find (inHitRange (keyToPositionMapping k)) (circles s) = Some h"
    and "samples_get samples (instrument_name (note' h)) = Inherited"
  shows "handleKeyPress k s samples env = Inl TypeError"
  using assms(2) by (simp add: handleKeyPress_hit [OF assms(1)] playSound_def)

text \<open>
  So does a miss that picks such a note: in a session whose chart is that one note, the
  first key press finds no circle, picks the note and throws.
\<close>

lemma miss_on_inherited_instrument:
  "run instruments [KeyPress k] (start_of [inherited_note] 42 []) = Inl TypeError"
  by (cases k; code_simp)

section \<open>The specified properties\<close>

text \<open>
  Claim C1: after a tick every circle has moved down by 5; a circle whose \<open>yPos\<close> is
  then greater than 350 is in \<open>exits\<close> and no longer in \<open>circles\<close>, the others stay
  in \<open>circles\<close>, and new exits are appended to the old ones.

  The tick moves the circles, keeps those at most at 350 (\<open>Tick_yPos\<close>) and appends to
  \<open>exits\<close> (\<open>Tick_exits\<close>), but it selects the new exits from the positions before the
  move. In the one-note session the circle stands at 350 after 70 ticks; tick 71 takes
  it to 355 and drops it from \<open>circles\<close>, and \<open>exits\<close> stays empty. The same holds
  of the tick in any state whose only circle is at 350: \<open>exits\<close> is as before.
\<close>

theorem Tick_drops_circle_without_exit:
  "map_sum id (circles \<circ> fst)
     (run instruments (UserPlayNote scenario_note # replicate 70 Clock) scenario_start)
     = Inr [scenario_circle 72 350]
   \<and> map_sum id (\<lambda>w. (circles (fst w), exits (fst w)))
     (run instruments (UserPlayNote scenario_note # replicate 71 Clock) scenario_start)
     = Inr ([], [])
   \<and> circles (Tick_apply h (s\<lparr>circles := [c\<lparr>yPos := 350\<rparr>]\<rparr>)) = []
   \<and> exits (Tick_apply h (s\<lparr>circles := [c\<lparr>yPos := 350\<rparr>]\<rparr>)) = exits s"
proof -
  have "map_sum id (circles \<circ> fst)
     (run instruments (UserPlayNote scenario_note # replicate 70 Clock) scenario_start)
     = Inr [scenario_circle 72 350]"
    by code_simp
  moreover have "map_sum id (\<lambda>w. (circles (fst w), exits (fst w)))
     (run instruments (UserPlayNote scenario_note # replicate 71 Clock) scenario_start)
     = Inr ([], [])"
    by code_simp
  moreover have "circles (Tick_apply h (s\<lparr>circles := [c\<lparr>yPos := 350\<rparr>]\<rparr>)) = []"
    by (simp add: Tick_apply_def)
  moreover have "exits (Tick_apply h (s\<lparr>circles := [c\<lparr>yPos := 350\<rparr>]\<rparr>)) = exits s"
    by (simp add: Tick_apply_def)
  ultimately show ?thesis by (intro conjI)
qed

text \<open>
  Claim C2: with an empty chart a key press takes the miss path as a no-op miss: the
  score penalty is applied (the score stays 0), no sound is triggered, \<open>circles\<close> and
  \<open>exits\<close> are unchanged, and a state is returned.

  In a state with an empty chart and no circles, whatever its other fields are, the
  press returns no state: the note looked up is \<open>undefined\<close> and \<open>playSound\<close> throws a
  \<open>TypeError\<close> before the score is computed.
\<close>

theorem keypress_on_empty_chart_throws:
  "handleKeyPress k (s\<lparr>notes' := [], circles := []\<rparr>) samples env = Inl TypeError"
  by (simp add: handleKeyPress_miss_empty_chart)

text \<open>
  Claim C3: when a key press finds a circle in its lane with \<open>yPos\<close> between 320 and
  350, the new state has exactly that circle removed from \<open>circles\<close> (and not added to
  \<open>exits\<close>) and the score raised by 10; the other circles, \<open>exits\<close>, the chart, the
  time and the end flag are unchanged.

  The hit branch does this whenever the sound of the note can be played or is skipped
  (\<open>handleKeyPress_hit_removes\<close>). It plays the note first, and \<open>playSound\<close> looks the
  instrument up by name in a plain object, guarding against a missing instrument only:
  the name of an inherited member passes the guard and is no sampler. In the one-note
  session whose note names \<open>constructor\<close> the circle stands at 320 after 64 ticks, in
  the lane of \<open>KeyH\<close>; pressing that key ends the run with a \<open>TypeError\<close>. No circle
  is removed and no score given.
\<close>

theorem hit_on_inherited_instrument_throws:
  "map_sum id (circles \<circ> fst)
     (run instruments (UserPlayNote inherited_note # replicate 64 Clock)
        (start_of [inherited_note] 42 []))
     = Inr [scenario_circle 66 320\<lparr>note' := inherited_note\<rparr>]
   \<and> find (inHitRange (keyToPositionMapping KeyH))
        [scenario_circle 66 320\<lparr>note' := inherited_note\<rparr>]
     = Some (scenario_circle 66 320\<lparr>note' := inherited_note\<rparr>)
   \<and> run instruments (UserPlayNote inherited_note # replicate 64 Clock @ [KeyPress KeyH])
        (start_of [inherited_note] 42 [])
     = Inl TypeError"
proof -
  have "map_sum id (circles \<circ> fst)
     (run instruments (UserPlayNote inherited_note # replicate 64 Clock)
        (start_of [inherited_note] 42 []))
     = Inr [scenario_circle 66 320\<lparr>note' := inherited_note\<rparr>]"
    by code_simp
  moreover have "find (inHitRange (keyToPositionMapping KeyH))
        [scenario_circle 66 320\<lparr>note' := inherited_note\<rparr>]
     = Some (scenario_circle 66 320\<lparr>note' := inherited_note\<rparr>)"
    by code_simp
  moreover have "run instruments
        (UserPlayNote inherited_note # replicate 64 Clock @ [KeyPress KeyH])
        (start_of [inherited_note] 42 [])
     = Inl TypeError"
    by code_simp
  ultimately show ?thesis by (intro conjI)
qed

text \<open>
  Claim C4: whatever sequence of clock ticks and key presses is applied to the initial
  state, the score is at least 0 in every intermediate state and in the final one.

  The states of a run are those reached after the first \<open>n\<close> events, for every \<open>n\<close>.
  The events may be of any kind, seed and chart are arbitrary.
\<close>

theorem score_never_negative:
  assumes "run samples (take n evs) (start_of chart seed canvas) = Inr (s, env)"
  shows "0 \<le> score s"
proof -
  have "0 \<le> score (fst (start_of chart seed canvas))"
    by (simp add: start_of_def initialState_def)
  with assms have "0 \<le> score (fst (s, env))" by (rule run_score)
  then show ?thesis by simp
qed

theorem score_never_negative_witness:
  "\<exists>s env. run instruments (take 67 scenario_events) scenario_start = Inr (s, env)
     \<and> score s = 9 \<and> 0 \<le> score s"
proof -
  have "map_sum id (score \<circ> fst) (run instruments (take 67 scenario_events) scenario_start)
          = Inr 9"
    by code_simp
  then obtain s env where r: "run instruments (take 67 scenario_events) scenario_start = Inr (s, env)"
    and nine: "score s = 9"
    by (cases "run instruments (take 67 scenario_events) scenario_start") auto
  from r have "0 \<le> score s"
    unfolding scenario_start_def by (rule score_never_negative)
  with r nine show ?thesis by blast
qed

text \<open>
  Claim C5: for every state and key such that no circle of the key's lane has \<open>yPos\<close>
  between 320 and 350, the press lowers the score by exactly 1, but not below 0, and
  leaves \<open>circles\<close> and \<open>exits\<close> unchanged.

  This is what the miss branch does when its note lookup succeeds and the sound of the
  note found can be played (\<open>handleKeyPress_miss_in_bounds\<close>). On an empty chart the
  lookup is \<open>undefined\<close>: the first key press of a session with an empty chart, a miss
  since nothing is on the canvas, ends the run with a \<open>TypeError\<close> and produces no
  state. A miss throws as well when the note it picked names an inherited member as its
  instrument (\<open>miss_on_inherited_instrument\<close>).
\<close>

theorem miss_on_empty_chart_ends_run:
  "run samples [KeyPress k] (start_of [] seed canvas) = Inl TypeError"
  by (simp add: start_of_def initialState_def step_def handleKeyPress_miss_empty_chart)

text \<open>
  Claim C6: two runs from the same chart with the same seed and the same sequence of
  events end in the same state; in particular score and time are equal.

  Two executions of the program do not start alike: the page may hold other elements,
  and the objects that a run creates (circle objects, their elements) lie at other
  addresses. Every tick and every removal compares circles by address, and a hit
  removes an element from the page by address. The two runs here start on any two
  canvases, which also makes their first free addresses differ. They end showing the
  same (flag, chart, score, time, and note, lane and position of every circle in
  \<open>circles\<close> and in \<open>exits\<close>), with the random stream at the same value and the same
  sounds played; or both end with the same exception.
\<close>

theorem replay_deterministic:
  "map_sum id (\<lambda>w. (visible (fst w), currentSequence (snd w), audio (snd w)))
     (run samples evs (start_of chart seed canvas1))
   = map_sum id (\<lambda>w. (visible (fst w), currentSequence (snd w), audio (snd w)))
       (run samples evs (start_of chart seed canvas2))"
proof -
  have "alike (start_of chart seed canvas1) (start_of chart seed canvas2)"
    using start_fresh_refs start_on_canvas
    by (simp add: alike_def shows_same_def) (simp add: start_of_def)
  then have "rel_sum (=) alike (run samples evs (start_of chart seed canvas1))
               (run samples evs (start_of chart seed canvas2))"
    by (rule run_alike)
  then show ?thesis
    by cases (simp_all add: alike_def shows_same_def)
qed

text \<open>
  Claim C7: in the one-note session, after the note has become due \<open>circles\<close> holds
  one circle at \<open>yPos = 0\<close>; after 64 further clock ticks it is at 320; pressing the
  key of its lane (pitch 60 gives remainder 0, the lane of \<open>KeyH\<close>) is then a hit
  that leaves the score at 10 and \<open>circles\<close> empty.
\<close>

theorem one_note_session:
  "map_sum id (circles \<circ> fst) (run instruments [UserPlayNote scenario_note] scenario_start)
     = Inr [scenario_circle 2 0]
   \<and> map_sum id (circles \<circ> fst)
       (run instruments (UserPlayNote scenario_note # replicate 64 Clock) scenario_start)
     = Inr [scenario_circle 66 320]
   \<and> keyToPositionMapping KeyH = attribute_string (determineCxPosition scenario_note)
   \<and> map_sum id (\<lambda>w. (score (fst w), circles (fst w)))
       (run instruments (UserPlayNote scenario_note # replicate 64 Clock @ [KeyPress KeyH])
          scenario_start)
     = Inr (10, [])"
  by code_simp

text \<open>
  Claim C8: the stream is a linear congruential sequence: for every non-negative
  integer seed and every \<open>n\<close>, the value returned by call \<open>n\<close> lies between -1 and 1,
  and it is the same for any two streams created from that seed.

  The numbers are doubles. For the seed \<open>2 ^ 1000\<close> the product \<open>RNG.a * seed\<close> is
  \<open>Infinity\<close>, its remainder is \<open>NaN\<close>, and the first call, as every later one,
  returns \<open>NaN\<close>.
\<close>

theorem rng_stream_NaN_for_large_seed:
  "nth_call 0 (createTriggeredRngStream (2 ^ 1000)) = None"
proof -
  have "(2 :: int) ^ 1024 = 16777216 * 2 ^ 1000" by simp
  then have "int overflow \<le> RNG_a * 2 ^ 1000" by (simp add: overflow_def RNG_a_def)
  then have "hash (Some (2 ^ 1000)) = None" by (intro hash_overflow) simp_all
  then show ?thesis
    by (simp add: createTriggeredRngStream_def nth_call_lazyRNG scale_def)
qed

text \<open>
  Claim C8, for the seeds whose first hash is a number: these are the seeds for which
  \<open>RNG.a * seed + RNG.c\<close> is finite, among them every seed up to \<open>2 ^ 990\<close>
  (\<open>hash_up_to\<close>). For every such non-negative integer seed and every \<open>n\<close>, call
  \<open>n\<close> (counting from 0) of the stream created from it returns a number between -1 and
  1, namely the scaled \<open>(n + 1)\<close>-fold hash of the seed, which depends on nothing but
  the seed and \<open>n\<close>.
\<close>

theorem rng_stream_in_range:
  assumes "0 \<le> seed" and "hash (Some seed) \<noteq> None"
  shows "\<exists>v. nth_call n (createTriggeredRngStream seed) = Some v \<and> - 1 \<le> v \<and> v \<le> 1
           \<and> scale ((hash ^^ Suc n) (Some seed)) = Some v"
proof -
  from assms obtain h where h: "(hash ^^ Suc n) (Some seed) = Some h"
    and "0 \<le> h" and "h < RNG_m"
    using stream_numbers [of seed n] by blast
  then obtain v where "scale (Some h) = Some v" and "- 1 \<le> v" and "v \<le> 1"
    using scale_bounds by blast
  then show ?thesis
    by (simp only: createTriggeredRngStream_def nth_call_lazyRNG h) simp
qed

theorem rng_stream_in_range_witness:
  "0 \<le> (42 :: int) \<and> hash (Some 42) \<noteq> None
   \<and> nth_call 2 (createTriggeredRngStream 42) = Some (1782152705 / 2147483647)
   \<and> (\<exists>v. nth_call 2 (createTriggeredRngStream 42) = Some v \<and> - 1 \<le> v \<and> v \<le> 1
           \<and> scale ((hash ^^ Suc 2) (Some 42)) = Some v)"
proof -
  have number: "hash (Some 42) \<noteq> None" by (simp add: hash_from_42)
  have "nth_call 2 (createTriggeredRngStream 42) = scale (hash (hash (hash (Some 42))))"
    by (simp add: createTriggeredRngStream_def nth_call_lazyRNG eval_nat_numeral)
  then have third: "nth_call 2 (createTriggeredRngStream 42) = Some (1782152705 / 2147483647)"
    by (simp add: hash_from_42 scale_def RNG_m_def)
  from rng_stream_in_range [of 42 2, OF _ number]
  have "\<exists>v. nth_call 2 (createTriggeredRngStream 42) = Some v \<and> - 1 \<le> v \<and> v \<le> 1
           \<and> scale ((hash ^^ Suc 2) (Some 42)) = Some v"
    by simp
  with number third show ?thesis by simp
qed

text \<open>
  Claim C9: in every state reached from the initial state by clock ticks, notes becoming
  due (a circle added at \<open>yPos = 0\<close>), removals, key presses and the end of the game,
  \<open>exits\<close> is empty: the tick takes the new exits from the positions before the move,
  where every circle is at most at 350, and nothing else appends to \<open>exits\<close>.
\<close>

theorem exits_always_empty:
  assumes "run samples (take n evs) (start_of chart seed canvas) = Inr (s, env)"
  shows "exits s = [] \<and> (\<forall>c \<in> set (circles s). yPos c \<le> 350)
       \<and> exits (Tick_apply h s) = filter (\<lambda>c. yPos c > 350) (circles s)
       \<and> exits (Tick_apply h s) = []"
proof -
  from assms start_on_lane have "on_lane (fst (s, env))" by (rule run_on_lane)
  then have e: "exits s = []" and c: "\<forall>c \<in> set (circles s). yPos c \<le> 350"
    by (simp_all add: on_lane_def list_all_iff)
  from c have "filter (\<lambda>c. yPos c > 350) (circles s) = []"
    by (auto simp: filter_empty_conv)
  with e c show ?thesis by (simp add: Tick_exits)
qed

theorem exits_always_empty_witness:
  "\<exists>s env. run instruments (take 72 (UserPlayNote scenario_note # replicate 71 Clock))
              scenario_start = Inr (s, env)
     \<and> circles s = [] \<and> exits s = [] \<and> (\<forall>c \<in> set (circles s). yPos c \<le> 350)
     \<and> exits (Tick_apply 0 s) = []"
proof -
  let ?r = "run instruments (take 72 (UserPlayNote scenario_note # replicate 71 Clock))
              scenario_start"
  have "map_sum id (circles \<circ> fst) ?r = Inr []"
    by code_simp
  then obtain s env where r: "?r = Inr (s, env)" and none: "circles s = []"
    by (cases ?r) auto
  from r have "exits s = [] \<and> (\<forall>c \<in> set (circles s). yPos c \<le> 350)
       \<and> exits (Tick_apply 0 s) = filter (\<lambda>c. yPos c > 350) (circles s)
       \<and> exits (Tick_apply 0 s) = []"
    unfolding scenario_start_def by (rule exits_always_empty)
  with r none show ?thesis by blast
qed

text \<open>
  Claim C10: for a chart of \<open>n > 0\<close> notes and a random value \<open>v\<close> with
  \<open>-1 \<le> v < 1\<close>, the index \<open>\<lfloor>(v + 1) / 2 * n\<rfloor>\<close> of the miss branch lies between 0
  and \<open>n - 1\<close>, so the lookup in the chart is within the array. At \<open>v = 1\<close> the index
  is \<open>n\<close> (\<open>randomIndex_at_one\<close>).
\<close>

theorem randomIndex_in_bounds:
  assumes "- 1 \<le> v" and "v < 1" and "chart \<noteq> []"
  shows "0 \<le> randomIndex v (length chart)
       \<and> randomIndex v (length chart) \<le> int (length chart) - 1
       \<and> js_index chart (randomIndex v (length chart))
           = Some (chart ! nat (randomIndex v (length chart)))"
proof -
  have "0 < length chart" using assms(3) by simp
  with assms(1,2) have "0 \<le> randomIndex v (length chart)"
    and "randomIndex v (length chart) < int (length chart)"
    by (rule randomIndex_range)+
  then show ?thesis by (simp add: js_index_def)
qed

theorem randomIndex_in_bounds_witness:
  "- 1 \<le> (1 / 2 :: rat) \<and> (1 / 2 :: rat) < 1 \<and> [scenario_note, scenario_note] \<noteq> []
   \<and> randomIndex (1 / 2) (length [scenario_note, scenario_note]) = 1
   \<and> js_index [scenario_note, scenario_note]
        (randomIndex (1 / 2) (length [scenario_note, scenario_note]))
       = Some scenario_note"
proof -
  have i: "randomIndex (1 / 2) (length [scenario_note, scenario_note]) = 1"
    by code_simp
  have "js_index [scenario_note, scenario_note]
          (randomIndex (1 / 2) (length [scenario_note, scenario_note]))
        = Some ([scenario_note, scenario_note]
                  ! nat (randomIndex (1 / 2) (length [scenario_note, scenario_note])))"
    using randomIndex_in_bounds [of "1 / 2" "[scenario_note, scenario_note]"] by simp
  then have "js_index [scenario_note, scenario_note]
          (randomIndex (1 / 2) (length [scenario_note, scenario_note])) = Some scenario_note"
    by (simp only: i) simp
  with i show ?thesis by simp
qed

end
